theory Spec2Isabelle
  imports Main "HOL-Library.Sublist" "HOL-Library.AList"
begin

section \<open>Strings\<close>

text \<open>
  A Python \<^verbatim>\<open>str\<close> is modelled as a \<^typ>\<open>string\<close>; a \<^typ>\<open>char\<close> is read as the code point
  of the same number, so the model covers the strings over code points 0 to 255. The
  functions below are the \<^verbatim>\<open>str\<close> methods the program calls.
\<close>

definition startswith :: "string \<Rightarrow> string \<Rightarrow> bool" where
  "startswith s p = (take (length p) s = p)"

fun contains :: "string \<Rightarrow> string \<Rightarrow> bool" where
  "contains [] p = (p = [])"
| "contains (x # xs) p = (startswith (x # xs) p \<or> contains xs p)"

text \<open>\<^verbatim>\<open>s.replace(old, new)\<close> for a non-empty \<open>old\<close>, the only case the program has.\<close>

function str_replace :: "string \<Rightarrow> string \<Rightarrow> string \<Rightarrow> string" where
  "str_replace old new s =
     (if s = [] then []
      else if old \<noteq> [] \<and> startswith s old then new @ str_replace old new (drop (length old) s)
      else hd s # str_replace old new (tl s))"
  by pat_completeness auto
termination
  by (relation "measure (\<lambda>(old, new, s). length s)") auto

definition rstrip :: "char \<Rightarrow> string \<Rightarrow> string" where
  "rstrip c s = rev (dropWhile (\<lambda>x. x = c) (rev s))"

definition lstrip :: "char \<Rightarrow> string \<Rightarrow> string" where
  "lstrip c s = dropWhile (\<lambda>x. x = c) s"

text \<open>\<^verbatim>\<open>s.split(c)[0]\<close> and \<^verbatim>\<open>s.rsplit(c, 1)[0]\<close>.\<close>

definition split_first :: "char \<Rightarrow> string \<Rightarrow> string" where
  "split_first c s = takeWhile (\<lambda>x. x \<noteq> c) s"

definition rsplit1_first :: "char \<Rightarrow> string \<Rightarrow> string" where
  "rsplit1_first c s = (if c \<in> set s then rev (tl (dropWhile (\<lambda>x. x \<noteq> c) (rev s))) else s)"

definition ascii_lower :: "char \<Rightarrow> char" where
  "ascii_lower c =
     (case map_of (zip ''ABCDEFGHIJKLMNOPQRSTUVWXYZ'' ''abcdefghijklmnopqrstuvwxyz'') c of
        Some l \<Rightarrow> l | None \<Rightarrow> c)"

definition is_digit :: "char \<Rightarrow> bool" where
  "is_digit c = (c \<in> set ''0123456789'')"

text \<open>\<^verbatim>\<open>int(s)\<close> on a string of decimal digits, and \<^verbatim>\<open>str(i)\<close> on an integer.\<close>

definition digit_val :: "char \<Rightarrow> int" where
  "digit_val c = int (length (takeWhile (\<lambda>d. d \<noteq> c) ''0123456789''))"

definition int_of_digits :: "string \<Rightarrow> int" where
  "int_of_digits s = foldl (\<lambda>n c. 10 * n + digit_val c) 0 s"

function str_of_nat :: "nat \<Rightarrow> string" where
  "str_of_nat n =
     (if n < 10 then [''0123456789'' ! n] else str_of_nat (n div 10) @ [''0123456789'' ! (n mod 10)])"
  by pat_completeness auto
termination
  by (relation "measure (\<lambda>n. n)") auto

definition str_of_int :: "int \<Rightarrow> string" where
  "str_of_int i = (if i < 0 then CHR ''-'' # str_of_nat (nat (- i)) else str_of_nat (nat i))"

section \<open>Regular expressions\<close>

text \<open>
  The program matches with \<^verbatim>\<open>re.search\<close>. A pattern is the syntax tree of its source
  text, and the matcher is the backtracking one of Python's \<^verbatim>\<open>re\<close>: from a position it
  returns every way the pattern can match there, the preferred first (a quantifier
  takes as much as it can before it gives back). A matching state is the position in
  the subject, the rest of the subject and the groups captured so far. \<open>Dot\<close> is
  \<^verbatim>\<open>.\<close> without \<^verbatim>\<open>DOTALL\<close>, \<open>Eol\<close> is \<^verbatim>\<open>$\<close> without \<^verbatim>\<open>MULTILINE\<close> (the end of
  the subject, or just before a newline that ends it), \<open>Bol\<close> is \<^verbatim>\<open>^\<close>. The flag \<open>ic\<close>
  is \<^verbatim>\<open>re.IGNORECASE\<close>; the letters of the program's patterns are ASCII letters, whose
  only case variants among the code points below 256 are the ASCII ones. \<^verbatim>\<open>\d\<close> matches
  the decimal digits, of which \<open>0\<close> to \<open>9\<close> are the ones below 256.
\<close>

datatype rx =
    Eps
  | Lit char
  | Dot
  | NotChar char
  | Digit
  | Bol
  | Eol
  | Seq rx rx
  | Alt rx rx
  | Opt rx
  | Star rx
  | Group nat rx

type_synonym mstate = "nat \<times> string \<times> (nat \<times> string) list"

definition ch_eq :: "bool \<Rightarrow> char \<Rightarrow> char \<Rightarrow> bool" where
  "ch_eq ic a b = (if ic then ascii_lower a = ascii_lower b else a = b)"

fun rmatch :: "bool \<Rightarrow> rx \<Rightarrow> mstate \<Rightarrow> mstate list" where
  "rmatch ic Eps st = [st]"
| "rmatch ic (Lit c) (pos, s, caps) =
     (case s of [] \<Rightarrow> [] | x # xs \<Rightarrow> if ch_eq ic c x then [(pos + 1, xs, caps)] else [])"
| "rmatch ic Dot (pos, s, caps) =
     (case s of [] \<Rightarrow> [] | x # xs \<Rightarrow> if x \<noteq> CHR 0x0A then [(pos + 1, xs, caps)] else [])"
| "rmatch ic (NotChar c) (pos, s, caps) =
     (case s of [] \<Rightarrow> [] | x # xs \<Rightarrow> if \<not> ch_eq ic c x then [(pos + 1, xs, caps)] else [])"
| "rmatch ic Digit (pos, s, caps) =
     (case s of [] \<Rightarrow> [] | x # xs \<Rightarrow> if is_digit x then [(pos + 1, xs, caps)] else [])"
| "rmatch ic Bol (pos, s, caps) = (if pos = 0 then [(pos, s, caps)] else [])"
| "rmatch ic Eol (pos, s, caps) = (if s = [] \<or> s = [CHR 0x0A] then [(pos, s, caps)] else [])"
| "rmatch ic (Seq a b) st = concat (map (rmatch ic b) (rmatch ic a st))"
| "rmatch ic (Alt a b) st = rmatch ic a st @ rmatch ic b st"
| "rmatch ic (Opt a) st = rmatch ic a st @ [st]"
| "rmatch ic (Star a) (pos, s, caps) =
     concat (map (rmatch ic (Star a))
       (filter (\<lambda>st'. length (fst (snd st')) < length s) (rmatch ic a (pos, s, caps))))
     @ [(pos, s, caps)]"
| "rmatch ic (Group n a) (pos, s, caps) =
     map (\<lambda>(pos', s', caps'). (pos', s', (n, take (pos' - pos) s) # caps'))
       (rmatch ic a (pos, s, caps))"

text \<open>
  \<^verbatim>\<open>re.search\<close> tries the start positions from the left and returns the preferred match
  at the first position that has one: its start and the state it ends in.
\<close>

fun re_search_at :: "bool \<Rightarrow> rx \<Rightarrow> nat \<Rightarrow> string \<Rightarrow> (nat \<times> mstate) option" where
  "re_search_at ic r pos [] =
     (case rmatch ic r (pos, [], []) of m # _ \<Rightarrow> Some (pos, m) | [] \<Rightarrow> None)"
| "re_search_at ic r pos (x # xs) =
     (case rmatch ic r (pos, x # xs, []) of m # _ \<Rightarrow> Some (pos, m)
      | [] \<Rightarrow> re_search_at ic r (pos + 1) xs)"

definition re_search :: "bool \<Rightarrow> rx \<Rightarrow> string \<Rightarrow> (nat \<times> mstate) option" where
  "re_search ic r s = re_search_at ic r 0 s"

definition match_group :: "nat \<Rightarrow> nat \<times> mstate \<Rightarrow> string option" where
  "match_group n m = map_of (snd (snd (snd m))) n"

definition lits :: "string \<Rightarrow> rx" where
  "lits s = foldr (\<lambda>c r. Seq (Lit c) r) s Eps"

definition OneOrMore :: "rx \<Rightarrow> rx" where
  "OneOrMore r = Seq r (Star r)"

fun alts :: "rx list \<Rightarrow> rx" where
  "alts [] = Eps"
| "alts [r] = r"
| "alts (r # rs) = Alt r (alts rs)"

text \<open>
  A pattern of the program is kept with its source text, which
  \<^verbatim>\<open>_extract_category\<close> inspects, beside its syntax tree.
\<close>

type_synonym pattern = "string \<times> rx"

definition re_matches :: "bool \<Rightarrow> pattern \<Rightarrow> string \<Rightarrow> bool" where
  "re_matches ic p s = (re_search ic (snd p) s \<noteq> None)"

section \<open>urllib.parse.urlparse\<close>

text \<open>
  The program reads \<^verbatim>\<open>netloc\<close> and \<^verbatim>\<open>path\<close> of \<^verbatim>\<open>urlparse(url)\<close>. The library function
  is an argument of the functions that call it, so what is proved of them holds for
  every version of the library; it may raise \<^verbatim>\<open>ValueError\<close>. \<open>py_urlparse\<close> is the
  algorithm of CPython's \<^verbatim>\<open>urlsplit\<close> and \<^verbatim>\<open>urlparse\<close> (tabs and newlines removed, the
  scheme split off at the first colon, the network location between \<^verbatim>\<open>//\<close> and the
  next \<^verbatim>\<open>/\<close>, \<^verbatim>\<open>?\<close> or \<^verbatim>\<open>#\<close>, unbalanced brackets refused, then fragment, query and
  parameters cut from the path), used where a concrete run is evaluated. It leaves out
  what only some versions do (stripping leading control characters, validating a
  bracketed host); the URLs evaluated below have neither.
\<close>

datatype exn = ValueError | FetchError

record parsed_url =
  scheme :: string
  netloc :: string
  path :: string

definition scheme_chars :: string where
  "scheme_chars = ''abcdefghijklmnopqrstuvwxyzABCDEFGHIJKLMNOPQRSTUVWXYZ0123456789+-.''"

definition uses_params :: "string list" where
  "uses_params = ['''', ''ftp'', ''hdl'', ''prospero'', ''http'', ''imap'', ''https'', ''shttp'',
     ''rtsp'', ''rtspu'', ''sip'', ''sips'', ''mms'', ''sftp'', ''tel'']"

definition split_scheme :: "string \<Rightarrow> string \<times> string" where
  "split_scheme u =
     (let i = length (takeWhile (\<lambda>c. c \<noteq> CHR '':'') u) in
      if CHR '':'' \<in> set u \<and> 0 < i \<and> list_all (\<lambda>c. c \<in> set scheme_chars) (take i u)
      then (map ascii_lower (take i u), drop (i + 1) u)
      else ('''', u))"

definition splitnetloc :: "string \<Rightarrow> string \<times> string" where
  "splitnetloc u =
     (takeWhile (\<lambda>c. c \<notin> set ''/?#'') (drop 2 u), dropWhile (\<lambda>c. c \<notin> set ''/?#'') (drop 2 u))"

definition splitparams :: "string \<Rightarrow> string" where
  "splitparams u =
     (let k = length (rsplit1_first CHR ''/'' u) in
      if CHR ''/'' \<in> set u then take k u @ takeWhile (\<lambda>c. c \<noteq> CHR '';'') (drop k u)
      else takeWhile (\<lambda>c. c \<noteq> CHR '';'') u)"

definition py_urlparse :: "string \<Rightarrow> exn + parsed_url" where
  "py_urlparse u0 =
     (let u1 = filter (\<lambda>c. c \<notin> {CHR 0x09, CHR 0x0D, CHR 0x0A}) u0;
          (sch, u2) = split_scheme u1;
          (nl, u3) = (if take 2 u2 = ''//'' then splitnetloc u2 else ('''', u2))
      in if (CHR ''['' \<in> set nl \<and> CHR '']'' \<notin> set nl) \<or> (CHR '']'' \<in> set nl \<and> CHR ''['' \<notin> set nl)
         then Inl ValueError
         else
           let u4 = split_first CHR ''#'' u3;
               u5 = split_first CHR ''?'' u4;
               p = (if sch \<in> set uses_params \<and> CHR '';'' \<in> set u5 then splitparams u5 else u5)
           in Inr \<lparr>scheme = sch, netloc = nl, path = p\<rparr>)"

section \<open>ContentClassifier\<close>

definition path_tail :: "string \<Rightarrow> pattern" where
  "path_tail p =
     (p @ ''(/.*)?$'',
      Seq (lits p) (Seq (Opt (Group 1 (Seq (Lit CHR ''/'') (Star Dot)))) Eol))"

definition plain :: "string \<Rightarrow> pattern" where
  "plain p = (p, lits p)"

definition extension_of :: "string \<Rightarrow> string list \<Rightarrow> pattern" where
  "extension_of src es =
     (CHR 0x5C # src, Seq (Lit CHR ''.'') (Seq (Group 1 (alts (map lits es))) Eol))"

definition high_priority_patterns :: "pattern list" where
  "high_priority_patterns =
     [path_tail ''/ead'',
      path_tail ''/conteudos'',
      path_tail ''/educacao-a-distancia'',
      path_tail ''/servicos'',
      path_tail ''/eventos'',
      path_tail ''/pwa/produtos'',
      path_tail ''/podcast'',
      path_tail ''/receitas'',
      path_tail ''/calculadoras'',
      path_tail ''/acervo'']"

definition medium_priority_patterns :: "pattern list" where
  "medium_priority_patterns =
     [plain ''/sobre-nos'',
      plain ''/perguntas-frequentes'',
      plain ''/cadastro'',
      plain ''/meus-cursos'',
      plain ''/meus-certificados'']"

definition file_download_patterns :: "pattern list" where
  "file_download_patterns =
     [extension_of ''.(pdf|doc|docx|ppt|pptx|xls|xlsx)$''
        [''pdf'', ''doc'', ''docx'', ''ppt'', ''pptx'', ''xls'', ''xlsx''],
      extension_of ''.(zip|rar|tar|gz)$'' [''zip'', ''rar'', ''tar'', ''gz''],
      extension_of ''.(mp4|mp3|avi|mov|wmv)$'' [''mp4'', ''mp3'', ''avi'', ''mov'', ''wmv''],
      plain ''/download/'',
      plain ''/materials/'',
      plain ''/recursos/'',
      plain ''/arquivos/'']"

definition exclude_patterns :: "pattern list" where
  "exclude_patterns =
     [(''^tel:'', Seq Bol (lits ''tel:'')),
      (''^mailto:'', Seq Bol (lits ''mailto:'')),
      (''^#'', Seq Bol (lits ''#'')),
      plain ''/user/logout'',
      plain ''utm_source='',
      (''facebook'' @ CHR 0x5C # ''.com|twitter'' @ CHR 0x5C # ''.com|instagram'' @ CHR 0x5C #
         ''.com|linkedin'' @ CHR 0x5C # ''.com'',
       alts [lits ''facebook.com'', lits ''twitter.com'', lits ''instagram.com'',
             lits ''linkedin.com''])]"

definition extract_category :: "string \<Rightarrow> string \<Rightarrow> string" where
  "extract_category pat u =
     (if contains pat ''/ead'' then ''education''
      else if contains pat ''/conteudos'' then ''content''
      else if contains pat ''/servicos'' then ''services''
      else if contains pat ''/eventos'' then ''events''
      else if contains pat ''/pwa/produtos'' then ''products''
      else if contains pat ''/podcast'' then ''podcast''
      else if contains pat ''/receitas'' then ''recipes''
      else if contains pat ''/calculadoras'' then ''calculators''
      else if contains pat ''/acervo'' then ''archive''
      else ''high_priority'')"

definition classify_url ::
  "(string \<Rightarrow> exn + parsed_url) \<Rightarrow> string \<Rightarrow> string \<Rightarrow> exn + (string \<times> int)" where
  "classify_url up base_domain u =
     (if u = [] \<or> \<not> startswith u ''http'' then Inr (''invalid'', 0)
      else case up u of
        Inl x \<Rightarrow> Inl x
      | Inr parsed \<Rightarrow>
          if \<not> contains (netloc parsed) base_domain then Inr (''external'', 0)
          else if list_ex (\<lambda>p. re_matches True p u) exclude_patterns then Inr (''excluded'', 0)
          else if list_ex (\<lambda>p. re_matches True p u) file_download_patterns
            then Inr (''file_downloads'', 1)
          else case find (\<lambda>p. re_matches True p u) high_priority_patterns of
            Some p \<Rightarrow> Inr (extract_category (fst p) u, 1)
          | None \<Rightarrow>
              if list_ex (\<lambda>p. re_matches True p u) medium_priority_patterns
              then Inr (''medium_priority'', 1)
              else Inr (''general'', 1))"

section \<open>DiskStorage: the persistent discovery store\<close>

text \<open>
  The store of \<^verbatim>\<open>ultra_deep_mapsite.py\<close> is the file \<^verbatim>\<open>data/mapsite.json\<close>: a
  dictionary with the keys \<^verbatim>\<open>discovered_urls\<close>, \<^verbatim>\<open>total_count\<close> and
  \<^verbatim>\<open>last_updated\<close>. Every operation reads the whole file, and
  \<^verbatim>\<open>add_url_to_mapsite\<close> writes it back. The file is modelled by its parsed content;
  \<open>None\<close> is a missing file, the case the bare \<^verbatim>\<open>except\<close> of \<^verbatim>\<open>_load_mapsite\<close>
  handles and \<^verbatim>\<open>__init__\<close> repairs. A file that is there is taken to hold a dictionary
  of this form, and reading and writing it are taken to succeed, so the \<^verbatim>\<open>except\<close>
  branches of \<^verbatim>\<open>add_url_to_mapsite\<close> and \<^verbatim>\<open>is_url_already_discovered\<close> are not taken.
  The lock \<^verbatim>\<open>mapsite_lock\<close> makes each operation atomic; the model runs them one at a
  time. The clock (\<^verbatim>\<open>time.strftime\<close>) is an argument \<open>now\<close> of every operation that
  reads it.
\<close>

record url_entry =
  url :: string
  category :: string
  phase :: string
  depth :: int
  discovered_at :: string

record mapsite_data =
  discovered_urls :: "url_entry list"
  total_count :: int
  last_updated :: string

type_synonym mapsite_file = "mapsite_data option"

definition empty_mapsite :: "string \<Rightarrow> mapsite_data" where
  "empty_mapsite now = \<lparr>discovered_urls = [], total_count = 0, last_updated = now\<rparr>"

definition load_mapsite :: "string \<Rightarrow> mapsite_file \<Rightarrow> mapsite_data" where
  "load_mapsite now f = (case f of Some d \<Rightarrow> d | None \<Rightarrow> empty_mapsite now)"

definition save_mapsite_update :: "mapsite_data \<Rightarrow> mapsite_file" where
  "save_mapsite_update d = Some d"

definition storage_init :: "string \<Rightarrow> mapsite_file \<Rightarrow> mapsite_file" where
  "storage_init now f =
     (case f of None \<Rightarrow> save_mapsite_update (empty_mapsite now) | Some d \<Rightarrow> Some d)"

definition existing_urls :: "mapsite_data \<Rightarrow> string set" where
  "existing_urls d = set (map url (discovered_urls d))"

definition add_url_to_mapsite ::
  "string \<Rightarrow> mapsite_file \<Rightarrow> string \<Rightarrow> string \<Rightarrow> string \<Rightarrow> int \<Rightarrow> bool \<times> mapsite_file" where
  "add_url_to_mapsite now f u c p d =
     (let data = load_mapsite now f in
      if u \<notin> existing_urls data then
        let d1 = data\<lparr>discovered_urls := discovered_urls data @
                   [\<lparr>url = u, category = c, phase = p, depth = d, discovered_at = now\<rparr>]\<rparr>;
            d2 = d1\<lparr>total_count := int (length (discovered_urls d1))\<rparr>;
            d3 = d2\<lparr>last_updated := now\<rparr>
        in (True, save_mapsite_update d3)
      else (False, f))"

definition is_url_already_discovered :: "string \<Rightarrow> mapsite_file \<Rightarrow> string \<Rightarrow> bool" where
  "is_url_already_discovered now f u = (u \<in> existing_urls (load_mapsite now f))"

text \<open>
  \<^verbatim>\<open>get_current_stats\<close> counts with two \<^verbatim>\<open>defaultdict(int)\<close>; a Python dictionary keeps
  the order in which its keys were first inserted, so the counters are association lists.
\<close>

definition count_incr :: "(string \<times> nat) list \<Rightarrow> string \<Rightarrow> (string \<times> nat) list" where
  "count_incr m k = AList.update k (case map_of m k of None \<Rightarrow> 1 | Some n \<Rightarrow> n + 1) m"

record stats =
  total_urls :: int
  categories :: "(string \<times> nat) list"
  phases :: "(string \<times> nat) list"
  stats_last_updated :: string

definition get_current_stats :: "string \<Rightarrow> mapsite_file \<Rightarrow> stats" where
  "get_current_stats now f =
     (let data = load_mapsite now f in
      \<lparr>total_urls = total_count data,
       categories = foldl count_incr [] (map category (discovered_urls data)),
       phases = foldl count_incr [] (map phase (discovered_urls data)),
       stats_last_updated = last_updated data\<rparr>)"

text \<open>
  The count stored in the file agrees with the record list in every file the program
  writes: \<^verbatim>\<open>__init__\<close> writes \<open>0\<close> beside the empty list, and every insertion
  recomputes it.
\<close>

definition count_consistent :: "mapsite_file \<Rightarrow> bool" where
  "count_consistent f =
     (case f of None \<Rightarrow> True | Some d \<Rightarrow> total_count d = int (length (discovered_urls d)))"

definition records_for :: "string \<Rightarrow> mapsite_file \<Rightarrow> string \<Rightarrow> url_entry list" where
  "records_for now f u = filter (\<lambda>e. url e = u) (discovered_urls (load_mapsite now f))"

section \<open>URLPatternAnalyzer\<close>

text \<open>
  The four path shapes of \<^verbatim>\<open>_extract_pattern\<close>, each with the template it stands for,
  and the identifier pattern \<^verbatim>\<open>-(\d+)\<close> of \<^verbatim>\<open>_generate_pattern_variations\<close>.
\<close>

definition segment :: rx where
  "segment = OneOrMore (NotChar CHR ''/'')"

definition dash_number :: rx where
  "dash_number = Seq (Lit CHR ''-'') (Group 1 (OneOrMore Digit))"

definition shape_patterns :: "(rx \<times> string) list" where
  "shape_patterns =
     [(Seq (lits ''/ead/'') (Seq segment (Seq (Lit CHR ''/'') (Seq segment dash_number))),
       ''/ead/category/item-{id}''),
      (Seq (lits ''/conteudos/'') (Seq segment (Seq (Lit CHR ''/'') (Seq segment dash_number))),
       ''/conteudos/category/item-{id}''),
      (Seq (lits ''/node/'') (Group 1 (OneOrMore Digit)),
       ''/node/{id}''),
      (Seq (lits ''/produtos/'') (Seq segment dash_number),
       ''/produtos/item-{id}'')]"

definition extract_pattern ::
  "(string \<Rightarrow> exn + parsed_url) \<Rightarrow> string \<Rightarrow> exn + string option" where
  "extract_pattern up u =
     (case up u of
        Inl x \<Rightarrow> Inl x
      | Inr parsed \<Rightarrow>
          Inr (map_option snd
                 (find (\<lambda>(regex, pattern_template). re_search False regex (path parsed) \<noteq> None)
                    shape_patterns)))"

definition extract_ids :: "string list \<Rightarrow> int list" where
  "extract_ids examples =
     concat (map (\<lambda>u. case re_search False dash_number u of
                         None \<Rightarrow> []
                       | Some m \<Rightarrow> (case match_group 1 m of None \<Rightarrow> [] | Some g \<Rightarrow> [int_of_digits g]))
                 examples)"

fun list_min :: "int list \<Rightarrow> int" where
  "list_min [] = 0"
| "list_min (x # xs) = fold min xs x"

text \<open>
  \<^verbatim>\<open>examples[0]\<close> is read only when three identifiers were found, so the list is not
  empty there; \<^verbatim>\<open>range(start_id, end_id)\<close> is the integers from \<open>start_id\<close> to
  \<open>end_id - 1\<close>. The argument \<open>pattern\<close> is not used, as in the source.
\<close>

definition generate_pattern_variations :: "string \<Rightarrow> string list \<Rightarrow> string list" where
  "generate_pattern_variations pattern examples =
     (let ids = extract_ids examples in
      if 3 \<le> length ids then
        let min_id = list_min ids;
            start_id = max 1 (min_id - 10);
            end_id = min_id + 50;
            base = rsplit1_first CHR ''-'' (case examples of [] \<Rightarrow> [] | ex # _ \<Rightarrow> ex)
        in map (\<lambda>i. base @ ''-'' @ str_of_int i)
             (filter (\<lambda>i. i \<notin> set ids) [start_id..end_id - 1])
      else [])"

text \<open>
  \<^verbatim>\<open>self.discovered_patterns\<close> is a \<^verbatim>\<open>defaultdict(list)\<close> that lives as long as the
  analyzer: an association list in insertion order, passed in and returned.
\<close>

type_synonym discovered_patterns = "(string \<times> string list) list"

definition dp_append :: "discovered_patterns \<Rightarrow> string \<Rightarrow> string \<Rightarrow> discovered_patterns" where
  "dp_append dp k u =
     AList.update k ((case map_of dp k of None \<Rightarrow> [] | Some us \<Rightarrow> us) @ [u]) dp"

fun group_urls ::
  "(string \<Rightarrow> exn + parsed_url) \<Rightarrow> string list \<Rightarrow> discovered_patterns
     \<Rightarrow> exn option \<times> discovered_patterns" where
  "group_urls up [] dp = (None, dp)"
| "group_urls up (u # us) dp =
     (case extract_pattern up u of
        Inl x \<Rightarrow> (Some x, dp)
      | Inr None \<Rightarrow> group_urls up us dp
      | Inr (Some pattern) \<Rightarrow>
          if pattern \<noteq> [] then group_urls up us (dp_append dp pattern u)
          else group_urls up us dp)"

fun propose :: "discovered_patterns \<Rightarrow> (string \<times> string list) list" where
  "propose [] = []"
| "propose ((pattern, pattern_urls) # rest) =
     (if 3 \<le> length pattern_urls then
        (let variations = generate_pattern_variations pattern pattern_urls in
         if variations \<noteq> [] then (pattern, variations) # propose rest else propose rest)
      else propose rest)"

definition analyze_patterns ::
  "(string \<Rightarrow> exn + parsed_url) \<Rightarrow> string list \<Rightarrow> discovered_patterns
     \<Rightarrow> (exn + (string \<times> string list) list) \<times> discovered_patterns" where
  "analyze_patterns up urls dp =
     (case group_urls up urls dp of
        (Some x, dp') \<Rightarrow> (Inl x, dp')
      | (None, dp') \<Rightarrow> (Inr (propose dp'), dp'))"

section \<open>UltraDeepMapsite: the discovery engine\<close>

text \<open>
  A Firecrawl response is read through \<^verbatim>\<open>hasattr\<close> and truth tests only, so a field is
  \<open>None\<close> when the attribute is missing or \<^verbatim>\<open>None\<close>. An element of \<^verbatim>\<open>links\<close> is a
  dictionary or something \<^verbatim>\<open>str()\<close> is applied to.
\<close>

datatype link = LinkDict "(string \<times> string) list" | LinkStr string

record response =
  links :: "link list option"
  markdown :: "string option"
  html :: "string option"
  metadata :: "(string \<times> string \<times> string \<times> string) option"

definition links_of :: "response \<Rightarrow> link list" where
  "links_of r = (case links r of None \<Rightarrow> [] | Some ls \<Rightarrow> ls)"

definition has_links :: "response \<Rightarrow> bool" where
  "has_links r = (links_of r \<noteq> [])"

record content_data =
  c_url :: string
  c_phase :: string
  c_depth :: int
  c_category :: string
  scraped_at :: string
  firecrawl_response :: response

definition serialize_firecrawl_response :: "response \<Rightarrow> response" where
  "serialize_firecrawl_response r =
     \<lparr>links = (if has_links r then links r else None),
      markdown = (case markdown r of Some (c # cs) \<Rightarrow> Some (c # cs) | _ \<Rightarrow> None),
      html = (case html r of Some (c # cs) \<Rightarrow> Some (c # cs) | _ \<Rightarrow> None),
      metadata = metadata r\<rparr>"

text \<open>
  \<^verbatim>\<open>data/scrapped/\<close> holds one file per URL, named by the MD5 hash of the URL and a
  part of its path; it is modelled as a dictionary from the URL to the file's content.
\<close>

record disk_storage =
  mapsite_file :: mapsite_file
  scrapped_dir :: "(string \<times> content_data) list"

definition save_scraped_content ::
  "string \<Rightarrow> disk_storage \<Rightarrow> string \<Rightarrow> response \<Rightarrow> string \<Rightarrow> int \<Rightarrow> string \<Rightarrow> disk_storage" where
  "save_scraped_content now st u r p d c =
     st\<lparr>scrapped_dir := AList.update u
          \<lparr>c_url = u, c_phase = p, c_depth = d, c_category = c, scraped_at = now,
           firecrawl_response = serialize_firecrawl_response r\<rparr> (scrapped_dir st)\<rparr>"

text \<open>
  The collaborators and settings of a run: the base URL of \<^verbatim>\<open>Settings\<close>, the library's
  \<^verbatim>\<open>urlparse\<close>, Firecrawl's \<^verbatim>\<open>scrape_url\<close> and the clock. The outside world is a state
  \<open>'w\<close> that a fetch reads and may change; a fetch returns a response or raises.
\<close>

record 'w env =
  base_url :: string
  urlparse :: "string \<Rightarrow> exn + parsed_url"
  scrape_url :: "'w \<Rightarrow> string \<Rightarrow> (exn + response) \<times> 'w"
  strftime :: "'w \<Rightarrow> string"

record 'w ultra_deep_mapsite =
  storage :: disk_storage
  crawl_queue :: "(string \<times> int \<times> string) list"
  queued_urls :: "string set"
  failed_urls :: "string set"
  world :: 'w

definition base_domain_of :: "string \<Rightarrow> string" where
  "base_domain_of b =
     split_first CHR ''/'' (str_replace ''http://'' '''' (str_replace ''https://'' '''' b))"

definition classify :: "'w env \<Rightarrow> string \<Rightarrow> exn + (string \<times> int)" where
  "classify e u = classify_url (urlparse e) (base_domain_of (base_url e)) u"

definition current_time :: "'w env \<Rightarrow> 'w ultra_deep_mapsite \<Rightarrow> string" where
  "current_time e s = strftime e (world s)"

definition known :: "'w env \<Rightarrow> 'w ultra_deep_mapsite \<Rightarrow> string \<Rightarrow> bool" where
  "known e s u = is_url_already_discovered (current_time e s) (mapsite_file (storage s)) u"

definition store_add ::
  "'w env \<Rightarrow> 'w ultra_deep_mapsite \<Rightarrow> string \<Rightarrow> string \<Rightarrow> string \<Rightarrow> int \<Rightarrow> 'w ultra_deep_mapsite" where
  "store_add e s u c p d =
     s\<lparr>storage := (storage s)\<lparr>mapsite_file :=
          snd (add_url_to_mapsite (current_time e s) (mapsite_file (storage s)) u c p d)\<rparr>\<rparr>"

definition link_url :: "link \<Rightarrow> string" where
  "link_url l =
     (case l of
        LinkDict d \<Rightarrow>
          (case map_of d ''href'' of
             Some v \<Rightarrow> v
           | None \<Rightarrow> (case map_of d ''url'' of Some v \<Rightarrow> v | None \<Rightarrow> []))
      | LinkStr s \<Rightarrow> s)"

text \<open>The relative-URL handling of \<^verbatim>\<open>_process_complete_response\<close>; \<open>None\<close> is its \<^verbatim>\<open>continue\<close>.\<close>

definition resolve_link :: "string \<Rightarrow> string \<Rightarrow> string option" where
  "resolve_link b u =
     (if startswith u ''/'' then Some (rstrip CHR ''/'' b @ u)
      else if startswith u ''../'' then None
      else if \<not> startswith u ''http'' then Some (rstrip CHR ''/'' b @ ''/'' @ lstrip CHR ''/'' u)
      else Some u)"

fun process_links ::
  "'w env \<Rightarrow> string \<Rightarrow> int \<Rightarrow> link list \<Rightarrow> string list \<Rightarrow> 'w ultra_deep_mapsite
     \<Rightarrow> (exn + string list) \<times> 'w ultra_deep_mapsite" where
  "process_links e ph d [] processed_urls s = (Inr processed_urls, s)"
| "process_links e ph d (l # ls) processed_urls s =
     (if link_url l = [] then process_links e ph d ls processed_urls s
      else case resolve_link (base_url e) (link_url l) of
        None \<Rightarrow> process_links e ph d ls processed_urls s
      | Some u \<Rightarrow>
          (case classify e u of
             Inl x \<Rightarrow> (Inl x, s)
           | Inr (link_category, priority) \<Rightarrow>
               if 0 < priority \<and> u \<notin> set processed_urls
               then process_links e ph d ls (processed_urls @ [u])
                      (store_add e s u link_category ph (d + 1))
               else process_links e ph d ls processed_urls s))"

definition process_complete_response ::
  "'w env \<Rightarrow> 'w ultra_deep_mapsite \<Rightarrow> response \<Rightarrow> string \<Rightarrow> string \<Rightarrow> int \<Rightarrow> string
     \<Rightarrow> (exn + string list) \<times> 'w ultra_deep_mapsite" where
  "process_complete_response e s r source_url ph d c =
     (let s1 = s\<lparr>storage :=
                  save_scraped_content (current_time e s) (storage s) source_url r ph d c\<rparr> in
      if \<not> has_links r then (Inr [], s1)
      else process_links e ph d (links_of r) [] s1)"

definition crawl_single_url ::
  "'w env \<Rightarrow> 'w ultra_deep_mapsite \<Rightarrow> string \<Rightarrow> int \<Rightarrow> string \<Rightarrow> string
     \<Rightarrow> string list \<times> 'w ultra_deep_mapsite" where
  "crawl_single_url e s u d c ph =
     (case scrape_url e (world s) u of
        (Inl x, w) \<Rightarrow> ([], s\<lparr>failed_urls := insert u (failed_urls s), world := w\<rparr>)
      | (Inr result, w) \<Rightarrow>
          (case process_complete_response e (s\<lparr>world := w\<rparr>) result u ph d c of
             (Inl x, s2) \<Rightarrow> ([], s2\<lparr>failed_urls := insert u (failed_urls s2)\<rparr>)
           | (Inr new_urls, s2) \<Rightarrow> (filter (\<lambda>v. \<not> known e s2 v) new_urls, s2)))"

text \<open>Phase 1. The loop that fills the queue is \<open>phase1_enqueue\<close>.\<close>

fun phase1_enqueue ::
  "'w env \<Rightarrow> string list \<Rightarrow> 'w ultra_deep_mapsite \<Rightarrow> exn option \<times> 'w ultra_deep_mapsite" where
  "phase1_enqueue e [] s = (None, s)"
| "phase1_enqueue e (u # us) s =
     (case classify e u of
        Inl x \<Rightarrow> (Some x, s)
      | Inr (c, priority) \<Rightarrow>
          if 0 < priority
          then phase1_enqueue e us
                 (s\<lparr>crawl_queue := crawl_queue s @ [(u, 1, c)],
                    queued_urls := insert u (queued_urls s)\<rparr>)
          else phase1_enqueue e us s)"

definition phase1_foundation_discovery ::
  "'w env \<Rightarrow> 'w ultra_deep_mapsite \<Rightarrow> string list \<times> 'w ultra_deep_mapsite" where
  "phase1_foundation_discovery e s =
     (case scrape_url e (world s) (base_url e) of
        (Inl x, w) \<Rightarrow> ([], s\<lparr>world := w\<rparr>)
      | (Inr result, w) \<Rightarrow>
          if \<not> has_links result then ([], s\<lparr>world := w\<rparr>)
          else
            (case process_complete_response e (s\<lparr>world := w\<rparr>) result (base_url e)
                    ''phase1_foundation'' 0 ''homepage'' of
               (Inl x, s2) \<Rightarrow> ([], s2)
             | (Inr foundation_urls, s2) \<Rightarrow>
                 (case phase1_enqueue e foundation_urls s2 of
                    (Some x, s3) \<Rightarrow> ([], s3)
                  | (None, s3) \<Rightarrow> (foundation_urls, s3))))"

text \<open>
  Phase 2. \<open>phase2_enqueue\<close> is the inner loop over \<^verbatim>\<open>new_urls\<close>, \<open>phase2_iteration\<close>
  one pass of the \<^verbatim>\<open>while\<close> loop on a queue that is not empty; \<^verbatim>\<open>classify_url\<close> is
  called outside any \<^verbatim>\<open>try\<close> there, so an exception of it ends the phase. The local
  counter \<^verbatim>\<open>category_counts\<close>, which nothing reads, the progress lines and the pauses
  are left out.
\<close>

fun phase2_enqueue ::
  "'w env \<Rightarrow> int \<Rightarrow> string list \<Rightarrow> 'w ultra_deep_mapsite \<Rightarrow> exn option \<times> 'w ultra_deep_mapsite" where
  "phase2_enqueue e d [] s = (None, s)"
| "phase2_enqueue e d (new_url # us) s =
     (if \<not> known e s new_url \<and> new_url \<notin> queued_urls s then
        (case classify e new_url of
           Inl x \<Rightarrow> (Some x, s)
         | Inr (new_category, priority) \<Rightarrow>
             if 0 < priority
             then phase2_enqueue e d us
                    (s\<lparr>crawl_queue := crawl_queue s @ [(new_url, d + 1, new_category)],
                       queued_urls := insert new_url (queued_urls s)\<rparr>)
             else phase2_enqueue e d us s)
      else phase2_enqueue e d us s)"

definition phase2_iteration ::
  "'w env \<Rightarrow> string list \<Rightarrow> 'w ultra_deep_mapsite
     \<Rightarrow> (exn + string list) \<times> 'w ultra_deep_mapsite" where
  "phase2_iteration e phase2_urls s =
     (case crawl_queue s of
        [] \<Rightarrow> (Inr phase2_urls, s)
      | (u, d, c) # rest \<Rightarrow>
          (let s1 = s\<lparr>crawl_queue := rest\<rparr> in
           if known e s1 u then (Inr phase2_urls, s1)
           else
             (case crawl_single_url e s1 u d c ''phase2_recursive'' of
                (new_urls, s2) \<Rightarrow>
                  if new_urls \<noteq> [] then
                    (case phase2_enqueue e d new_urls s2 of
                       (Some x, s3) \<Rightarrow> (Inl x, s3)
                     | (None, s3) \<Rightarrow>
                         (Inr (phase2_urls @ new_urls),
                          s3\<lparr>queued_urls := queued_urls s3 - {u}\<rparr>))
                  else (Inr phase2_urls, s2\<lparr>queued_urls := queued_urls s2 - {u}\<rparr>))))"

text \<open>The state one pass of the loop leaves.\<close>

definition phase2_pass :: "'w env \<Rightarrow> 'w ultra_deep_mapsite \<Rightarrow> 'w ultra_deep_mapsite" where
  "phase2_pass e s = snd (phase2_iteration e [] s)"

text \<open>
  \<^verbatim>\<open>UltraDeepMapsite.__init__\<close> on the files \<open>disk\<close> of the data directory: the store is
  initialised if the file is missing, the queue and the sets are empty.
\<close>

definition empty_disk :: disk_storage where
  "empty_disk = \<lparr>mapsite_file = None, scrapped_dir = []\<rparr>"

definition engine_init :: "'w env \<Rightarrow> disk_storage \<Rightarrow> 'w \<Rightarrow> 'w ultra_deep_mapsite" where
  "engine_init e disk w =
     \<lparr>storage = disk\<lparr>mapsite_file := storage_init (strftime e w) (mapsite_file disk)\<rparr>,
      crawl_queue = [], queued_urls = {}, failed_urls = {}, world = w\<rparr>"

text \<open>
  The final summary. \<^verbatim>\<open>save_ultra_comprehensive_results\<close> prints and returns the total;
  the printed lines are modelled by what they carry: a line of fixed text (without its
  leading pictogram), or the values interpolated into it. \<^verbatim>\<open>sorted(..., key=lambda x: x[1], reverse=True)\<close> is Python's
  stable sort in descending order: the list reversed, sorted stably, and reversed again.
\<close>

datatype report_line =
    Text string
  | BaseURL string
  | TotalURLs int
  | CategoryCount string nat
  | PhaseCount string nat
  | LastUpdated string

definition sorted_by_count :: "(string \<times> nat) list \<Rightarrow> (string \<times> nat) list" where
  "sorted_by_count xs = rev (sort_key snd (rev xs))"

definition save_ultra_comprehensive_results ::
  "'w env \<Rightarrow> 'w ultra_deep_mapsite \<Rightarrow> report_line list \<times> int" where
  "save_ultra_comprehensive_results e s =
     (let final_stats = get_current_stats (current_time e s) (mapsite_file (storage s));
          total = total_urls final_stats
      in ([Text ''Final Ultra-Comprehensive Results Summary'',
           Text (replicate 60 CHR ''=''),
           Text ''Ultra-deep discovery completed successfully!'',
           Text ''COMPREHENSIVE DISCOVERY SUMMARY'',
           Text (replicate 60 CHR ''=''),
           BaseURL (base_url e),
           TotalURLs total,
           Text ''Mapsite saved to: data/mapsite.json'',
           Text ''Scraped content saved to: data/scrapped/'']
          @ (if categories final_stats \<noteq> []
             then Text ''Content Categories Discovered:''
                  # map (\<lambda>(c, n). CategoryCount c n) (sorted_by_count (categories final_stats))
             else [])
          @ (if phases final_stats \<noteq> []
             then Text ''Discovery by Phase:''
                  # map (\<lambda>(p, n). PhaseCount p n) (sorted_by_count (phases final_stats))
             else [])
          @ [Text ''Real-time Storage: All URLs and content saved immediately to disk'',
             Text ''Comprehensive site coverage achieved'',
             LastUpdated (stats_last_updated final_stats)],
          total))"

section \<open>Concrete sites and runs\<close>

text \<open>
  A site for concrete runs: the base URL is \<^verbatim>\<open>https://example.com\<close>, the seed page
  returns the given links, every other page returns no links, no fetch fails, and the
  world counts the fetches made.
\<close>

definition page :: "link list \<Rightarrow> response" where
  "page ls = \<lparr>links = Some ls, markdown = Some ''text'', html = None, metadata = None\<rparr>"

definition site :: "link list \<Rightarrow> nat env" where
  "site seed_links =
     \<lparr>base_url = ''https://example.com'',
      urlparse = py_urlparse,
      scrape_url = (\<lambda>w u. (Inr (page (if u = ''https://example.com'' then seed_links else [])),
                              w + 1)),
      strftime = (\<lambda>w. ''2025-01-01T00:00:00'')\<rparr>"

text \<open>The same site when every fetch raises.\<close>

definition down_site :: "nat env" where
  "down_site = (site [])\<lparr>scrape_url := (\<lambda>w u. (Inl FetchError, w + 1))\<rparr>"

text \<open>
  The site whose seed page links to \<^verbatim>\<open>/a\<close>, \<^verbatim>\<open>/b\<close> and \<^verbatim>\<open>/c\<close>, started on an empty
  data directory: \<open>stored_three\<close> is the engine after phase 1 has processed the seed
  response, \<open>seeded_three\<close> the engine when phase 1 returns.
\<close>

definition three_links :: "link list" where
  "three_links = [LinkStr ''/a'', LinkStr ''/b'', LinkStr ''/c'']"

definition three_urls :: "string list" where
  "three_urls = [''https://example.com/a'', ''https://example.com/b'', ''https://example.com/c'']"

definition entry_of :: "string \<Rightarrow> url_entry" where
  "entry_of u = \<lparr>url = u, category = ''general'', phase = ''phase1_foundation'', depth = 1,
     discovered_at = ''2025-01-01T00:00:00''\<rparr>"

definition stored_three :: "nat ultra_deep_mapsite" where
  "stored_three =
     \<lparr>storage =
        \<lparr>mapsite_file = Some \<lparr>discovered_urls = map entry_of three_urls, total_count = 3,
                                last_updated = ''2025-01-01T00:00:00''\<rparr>,
         scrapped_dir =
           [(''https://example.com'',
             \<lparr>c_url = ''https://example.com'', c_phase = ''phase1_foundation'', c_depth = 0,
              c_category = ''homepage'', scraped_at = ''2025-01-01T00:00:00'',
              firecrawl_response = page three_links\<rparr>)]\<rparr>,
      crawl_queue = [], queued_urls = {}, failed_urls = {}, world = 1\<rparr>"

definition seeded_three :: "nat ultra_deep_mapsite" where
  "seeded_three =
     stored_three\<lparr>crawl_queue := map (\<lambda>u. (u, 1, ''general'')) three_urls,
                  queued_urls := set three_urls\<rparr>"

text \<open>
  The links of the seed page in the seeding scenario, the engine when phase 1 returns on
  that site, and the inputs of the pattern analyzer that are evaluated below.
\<close>

definition scenario_links :: "link list" where
  "scenario_links =
     [LinkStr ''/a'', LinkStr ''/b'', LinkStr ''http://other.com/c'', LinkStr ''tel:123'']"

definition seeded_scenario :: "nat ultra_deep_mapsite" where
  "seeded_scenario =
     \<lparr>storage =
        \<lparr>mapsite_file = Some \<lparr>discovered_urls = map entry_of
             [''https://example.com/a'', ''https://example.com/b'', ''https://example.com/tel:123''],
             total_count = 3, last_updated = ''2025-01-01T00:00:00''\<rparr>,
         scrapped_dir =
           [(''https://example.com'',
             \<lparr>c_url = ''https://example.com'', c_phase = ''phase1_foundation'', c_depth = 0,
              c_category = ''homepage'', scraped_at = ''2025-01-01T00:00:00'',
              firecrawl_response = page scenario_links\<rparr>)]\<rparr>,
      crawl_queue = [(''https://example.com/a'', 1, ''general''),
         (''https://example.com/b'', 1, ''general''),
         (''https://example.com/tel:123'', 1, ''general'')],
      queued_urls = {''https://example.com/a'', ''https://example.com/b'',
         ''https://example.com/tel:123''},
      failed_urls = {}, world = 1\<rparr>"

definition ead_examples :: "string list" where
  "ead_examples = [''/ead/curso/item-10'', ''/ead/curso/item-12'', ''/ead/curso/item-15'']"

definition node_examples :: "string list" where
  "node_examples = [''https://example.com/node/1'', ''https://example.com/node/2'',
     ''https://example.com/node/3'']"

section \<open>Notions for the proofs\<close>

text \<open>
  A URL is accepted when \<^verbatim>\<open>classify_url\<close> returns it a priority above 0;
  \<open>stored_urls\<close> is the URLs of the store's records, in order, and \<open>store_records\<close>
  the records themselves as \<^verbatim>\<open>_load_mapsite\<close> reads them.
\<close>

definition accepted :: "'w env \<Rightarrow> string \<Rightarrow> bool" where
  "accepted e u = (case classify e u of Inl x \<Rightarrow> False | Inr (c, pr) \<Rightarrow> 0 < pr)"

definition stored_urls :: "'w ultra_deep_mapsite \<Rightarrow> string list" where
  "stored_urls s =
     (case mapsite_file (storage s) of None \<Rightarrow> [] | Some d \<Rightarrow> map url (discovered_urls d))"

definition store_records :: "'w env \<Rightarrow> 'w ultra_deep_mapsite \<Rightarrow> url_entry list" where
  "store_records e s = discovered_urls (load_mapsite (current_time e s) (mapsite_file (storage s)))"

section \<open>Properties of the store\<close>

lemma count_consistent_init: "count_consistent (storage_init now f) = count_consistent f"
  by (simp add: count_consistent_def storage_init_def save_mapsite_update_def empty_mapsite_def
      split: option.splits)

lemma count_consistent_add:
  "count_consistent f \<Longrightarrow> count_consistent (snd (add_url_to_mapsite now f u c p d))"
  by (simp add: count_consistent_def add_url_to_mapsite_def save_mapsite_update_def Let_def)

lemma existing_urls_load:
  "existing_urls (load_mapsite t f) = existing_urls (load_mapsite t' f)"
  by (simp add: load_mapsite_def existing_urls_def empty_mapsite_def split: option.splits)

lemma add_url_known:
  "is_url_already_discovered t (snd (add_url_to_mapsite now f u c p d)) u"
  using existing_urls_load [of t f now]
  by (simp add: is_url_already_discovered_def add_url_to_mapsite_def save_mapsite_update_def
      load_mapsite_def existing_urls_def Let_def)

lemma add_url_keeps_known:
  "is_url_already_discovered t f v \<Longrightarrow>
   is_url_already_discovered t (snd (add_url_to_mapsite now f u c p d)) v"
  by (auto simp: is_url_already_discovered_def add_url_to_mapsite_def save_mapsite_update_def
      load_mapsite_def existing_urls_def empty_mapsite_def Let_def split: option.splits)

lemma known_time_irrelevant:
  "is_url_already_discovered t f u = is_url_already_discovered t' f u"
  by (simp add: is_url_already_discovered_def load_mapsite_def existing_urls_def empty_mapsite_def
      split: option.splits)

text \<open>
  Claim C4. For a URL \<open>u\<close> that the store does not hold yet, in a store whose stored count
  agrees with its record list, two calls of \<^verbatim>\<open>add_url_to_mapsite\<close> with the same URL,
  category, phase and depth return \<open>True\<close> and then \<open>False\<close>; afterwards the store holds
  exactly one record for \<open>u\<close>, and \<^verbatim>\<open>get_current_stats()['total_urls']\<close> is one more
  than before, not two more. The clock may read differently at each call.
\<close>

theorem add_url_idempotent:
  assumes fresh: "\<not> is_url_already_discovered t0 f u"
    and cons: "count_consistent f"
  shows "fst (add_url_to_mapsite t1 f u c p d) = True
     \<and> fst (add_url_to_mapsite t2 (snd (add_url_to_mapsite t1 f u c p d)) u c p d) = False
     \<and> snd (add_url_to_mapsite t2 (snd (add_url_to_mapsite t1 f u c p d)) u c p d)
         = snd (add_url_to_mapsite t1 f u c p d)
     \<and> length (records_for t3
          (snd (add_url_to_mapsite t2 (snd (add_url_to_mapsite t1 f u c p d)) u c p d)) u) = 1
     \<and> total_urls (get_current_stats t3
          (snd (add_url_to_mapsite t2 (snd (add_url_to_mapsite t1 f u c p d)) u c p d)))
         = total_urls (get_current_stats t0 f) + 1"
proof -
  let ?f1 = "snd (add_url_to_mapsite t1 f u c p d)"
  from fresh have nin: "u \<notin> existing_urls (load_mapsite t1 f)"
    by (simp add: is_url_already_discovered_def load_mapsite_def existing_urls_def
        empty_mapsite_def split: option.splits)
  have r1: "fst (add_url_to_mapsite t1 f u c p d) = True"
    using nin by (simp add: add_url_to_mapsite_def Let_def)
  have known: "u \<in> existing_urls (load_mapsite t2 ?f1)"
    using add_url_known [of t2 t1 f u c p d] by (simp add: is_url_already_discovered_def)
  have second: "add_url_to_mapsite t2 ?f1 u c p d = (False, ?f1)"
    using known by (simp add: add_url_to_mapsite_def Let_def)
  have nofilter: "filter (\<lambda>e. url e = u) (discovered_urls (load_mapsite t1 f)) = []"
    using nin by (auto simp: existing_urls_def filter_empty_conv)
  have one: "length (records_for t3 ?f1 u) = 1"
    using nin nofilter
    by (simp add: records_for_def add_url_to_mapsite_def save_mapsite_update_def
        load_mapsite_def Let_def)
  have len0: "total_urls (get_current_stats t0 f) = int (length (discovered_urls (load_mapsite t1 f)))"
    using cons
    by (simp add: get_current_stats_def count_consistent_def load_mapsite_def empty_mapsite_def
        Let_def split: option.splits)
  have tot: "total_urls (get_current_stats t3 ?f1) = total_urls (get_current_stats t0 f) + 1"
    using nin len0
    by (simp add: get_current_stats_def add_url_to_mapsite_def save_mapsite_update_def
        load_mapsite_def Let_def)
  show ?thesis using r1 second one tot by simp
qed

theorem add_url_idempotent_witness:
  "\<not> is_url_already_discovered ''t0'' (storage_init ''t0'' None) ''https://example.com/a''
   \<and> count_consistent (storage_init ''t0'' None)
   \<and> fst (add_url_to_mapsite ''t1'' (storage_init ''t0'' None)
        ''https://example.com/a'' ''general'' ''phase1_foundation'' 1) = True
   \<and> fst (add_url_to_mapsite ''t2''
        (snd (add_url_to_mapsite ''t1'' (storage_init ''t0'' None)
           ''https://example.com/a'' ''general'' ''phase1_foundation'' 1))
        ''https://example.com/a'' ''general'' ''phase1_foundation'' 1) = False
   \<and> total_urls (get_current_stats ''t3''
        (snd (add_url_to_mapsite ''t2''
          (snd (add_url_to_mapsite ''t1'' (storage_init ''t0'' None)
             ''https://example.com/a'' ''general'' ''phase1_foundation'' 1))
          ''https://example.com/a'' ''general'' ''phase1_foundation'' 1))) = 1"
proof -
  have a: "\<not> is_url_already_discovered ''t0'' (storage_init ''t0'' None) ''https://example.com/a''"
    by (simp add: is_url_already_discovered_def storage_init_def save_mapsite_update_def
        load_mapsite_def existing_urls_def empty_mapsite_def)
  have b: "count_consistent (storage_init ''t0'' None)"
    by (simp add: count_consistent_def storage_init_def save_mapsite_update_def empty_mapsite_def)
  have z: "total_urls (get_current_stats ''t0'' (storage_init ''t0'' None)) = 0"
    by (simp add: get_current_stats_def storage_init_def save_mapsite_update_def
        load_mapsite_def empty_mapsite_def)
  note th = add_url_idempotent [OF a b, of "''t1''" "''general''" "''phase1_foundation''" 1
      "''t2''" "''t3''"]
  from th have c: "fst (add_url_to_mapsite ''t1'' (storage_init ''t0'' None)
        ''https://example.com/a'' ''general'' ''phase1_foundation'' 1) = True"
    by (rule conjunct1)
  from th have d: "fst (add_url_to_mapsite ''t2''
        (snd (add_url_to_mapsite ''t1'' (storage_init ''t0'' None)
           ''https://example.com/a'' ''general'' ''phase1_foundation'' 1))
        ''https://example.com/a'' ''general'' ''phase1_foundation'' 1) = False"
    by (rule conjunct2 [THEN conjunct1])
  from th have e: "total_urls (get_current_stats ''t3''
        (snd (add_url_to_mapsite ''t2''
          (snd (add_url_to_mapsite ''t1'' (storage_init ''t0'' None)
             ''https://example.com/a'' ''general'' ''phase1_foundation'' 1))
          ''https://example.com/a'' ''general'' ''phase1_foundation'' 1)))
       = total_urls (get_current_stats ''t0'' (storage_init ''t0'' None)) + 1"
    by (rule conjunct2 [THEN conjunct2, THEN conjunct2, THEN conjunct2])
  from a b c d e z show ?thesis by simp
qed

section \<open>Properties of the classifier\<close>

lemma extract_category_table:
  "map (\<lambda>p. extract_category (fst p) u) high_priority_patterns =
     [''education'', ''content'', ''high_priority'', ''services'', ''events'', ''products'',
      ''podcast'', ''recipes'', ''calculators'', ''archive'']"
  by (simp add: high_priority_patterns_def path_tail_def extract_category_def startswith_def)

text \<open>
  Claim C7, as amended. Let \<open>u\<close> start with \<^verbatim>\<open>http\<close>, let \<^verbatim>\<open>urlparse\<close> return for it a
  network location that contains the base domain, and let \<open>u\<close> match no exclude pattern
  and no file-download pattern. If the first high-priority pattern that \<open>u\<close> matches, in
  the order of the list, is the \<open>i\<close>-th one, then \<^verbatim>\<open>classify_url\<close> returns priority 1
  with the category \<^verbatim>\<open>_extract_category\<close> gives that pattern: in the order of the list
  education, content, high_priority (for \<^verbatim>\<open>/educacao-a-distancia\<close>), services, events,
  products, podcast, recipes, calculators, archive.
\<close>

theorem classify_high_priority:
  assumes http: "startswith u ''http''"
    and parsed: "up u = Inr parsed"
    and same: "contains (netloc parsed) base_domain"
    and noex: "\<not> list_ex (\<lambda>p. re_matches True p u) exclude_patterns"
    and nofile: "\<not> list_ex (\<lambda>p. re_matches True p u) file_download_patterns"
    and i: "i < length high_priority_patterns"
    and hit: "re_matches True (high_priority_patterns ! i) u"
    and first: "\<forall>j<i. \<not> re_matches True (high_priority_patterns ! j) u"
  shows "classify_url up base_domain u
           = Inr (extract_category (fst (high_priority_patterns ! i)) u, 1)
       \<and> map (\<lambda>p. extract_category (fst p) u) high_priority_patterns =
           [''education'', ''content'', ''high_priority'', ''services'', ''events'', ''products'',
            ''podcast'', ''recipes'', ''calculators'', ''archive'']"
proof -
  have ne: "u \<noteq> []" using http by (auto simp: startswith_def)
  have f: "find (\<lambda>p. re_matches True p u) high_priority_patterns = Some (high_priority_patterns ! i)"
    using i hit first by (auto simp: find_Some_iff)
  have "classify_url up base_domain u
           = Inr (extract_category (fst (high_priority_patterns ! i)) u, 1)"
    using ne http parsed same noex nofile f by (simp add: classify_url_def)
  then show ?thesis using extract_category_table by simp
qed

theorem classify_high_priority_witness:
  "startswith ''https://example.com/ead/curso'' ''http''
   \<and> py_urlparse ''https://example.com/ead/curso''
       = Inr \<lparr>scheme = ''https'', netloc = ''example.com'', path = ''/ead/curso''\<rparr>
   \<and> contains ''example.com'' ''example.com''
   \<and> \<not> list_ex (\<lambda>p. re_matches True p ''https://example.com/ead/curso'') exclude_patterns
   \<and> \<not> list_ex (\<lambda>p. re_matches True p ''https://example.com/ead/curso'') file_download_patterns
   \<and> re_matches True (high_priority_patterns ! 0) ''https://example.com/ead/curso''
   \<and> classify_url py_urlparse ''example.com'' ''https://example.com/ead/curso''
       = Inr (''education'', 1)"
proof -
  let ?u = "''https://example.com/ead/curso''"
  have a: "startswith ?u ''http''" by code_simp
  have b: "py_urlparse ?u = Inr \<lparr>scheme = ''https'', netloc = ''example.com'', path = ''/ead/curso''\<rparr>"
    by code_simp
  have c: "contains (netloc \<lparr>scheme = ''https'', netloc = ''example.com'', path = ''/ead/curso''\<rparr>)
      ''example.com''"
    by code_simp
  have d: "\<not> list_ex (\<lambda>p. re_matches True p ?u) exclude_patterns" by code_simp
  have e: "\<not> list_ex (\<lambda>p. re_matches True p ?u) file_download_patterns" by code_simp
  have f: "(0::nat) < length high_priority_patterns" by code_simp
  have g: "re_matches True (high_priority_patterns ! 0) ?u" by code_simp
  have h: "\<forall>j<(0::nat). \<not> re_matches True (high_priority_patterns ! j) ?u" by simp
  have k: "extract_category (fst (high_priority_patterns ! 0)) ?u = ''education''" by code_simp
  from classify_high_priority [where up = py_urlparse and u = ?u and i = 0, OF a b c d e f g h]
  have "classify_url py_urlparse ''example.com'' ?u = Inr (''education'', 1)"
    by (simp only: k)
  with a b c d e g show ?thesis by simp
qed

text \<open>
  The claim as the spec words it fails at \<^verbatim>\<open>https://example.com/educacao-a-distancia\<close>,
  a URL of the base domain that matches the third high-priority pattern and no exclude
  or file-download pattern: its category is \<^verbatim>\<open>high_priority\<close>, none of the nine names.
\<close>

theorem classify_named_category_counterexample:
  "list_ex (\<lambda>p. re_matches True p ''https://example.com/educacao-a-distancia'')
     high_priority_patterns
   \<and> \<not> list_ex (\<lambda>p. re_matches True p ''https://example.com/educacao-a-distancia'')
       exclude_patterns
   \<and> \<not> list_ex (\<lambda>p. re_matches True p ''https://example.com/educacao-a-distancia'')
       file_download_patterns
   \<and> classify_url py_urlparse ''example.com'' ''https://example.com/educacao-a-distancia''
       = Inr (''high_priority'', 1)
   \<and> ''high_priority'' \<notin> set [''education'', ''content'', ''services'', ''events'', ''products'',
        ''podcast'', ''recipes'', ''calculators'', ''archive'']"
proof -
  let ?u = "''https://example.com/educacao-a-distancia''"
  have a: "list_ex (\<lambda>p. re_matches True p ?u) high_priority_patterns" by code_simp
  have b: "\<not> list_ex (\<lambda>p. re_matches True p ?u) exclude_patterns" by code_simp
  have c: "\<not> list_ex (\<lambda>p. re_matches True p ?u) file_download_patterns" by code_simp
  have d: "classify_url py_urlparse ''example.com'' ?u = Inr (''high_priority'', 1)" by code_simp
  have e: "''high_priority'' \<notin> set [''education'', ''content'', ''services'', ''events'',
      ''products'', ''podcast'', ''recipes'', ''calculators'', ''archive'']" by simp
  from a b c d e show ?thesis by (intro conjI)
qed

section \<open>The recursive phase terminates\<close>

text \<open>
  \<^verbatim>\<open>_process_complete_response\<close> writes only to the store and to the scraped files; every
  URL it returns is in the store when it returns. So the filter of \<^verbatim>\<open>_crawl_single_url\<close>
  keeps nothing, and a pass of the loop of phase 2 takes one entry off the queue and adds
  none: this is what makes the loop terminate.
\<close>

lemma store_add_fields [simp]:
  "crawl_queue (store_add e s u c p d) = crawl_queue s"
  "queued_urls (store_add e s u c p d) = queued_urls s"
  "failed_urls (store_add e s u c p d) = failed_urls s"
  "world (store_add e s u c p d) = world s"
  "scrapped_dir (storage (store_add e s u c p d)) = scrapped_dir (storage s)"
  by (simp_all add: store_add_def)

lemma known_store_add_same: "known e (store_add e s u c p d) u"
  by (simp add: known_def store_add_def add_url_known)

lemma known_store_add_other: "known e s v \<Longrightarrow> known e (store_add e s u c p d) v"
  unfolding known_def store_add_def
  using add_url_keeps_known known_time_irrelevant by simp blast

lemma process_links_frame:
  "process_links e ph d ls acc s = (r, s') \<Longrightarrow>
     crawl_queue s' = crawl_queue s \<and> queued_urls s' = queued_urls s
     \<and> failed_urls s' = failed_urls s \<and> world s' = world s
     \<and> scrapped_dir (storage s') = scrapped_dir (storage s)"
proof (induction ls arbitrary: acc s)
  case Nil
  then show ?case by simp
next
  case (Cons l ls)
  then show ?case
    by (auto split: if_splits option.splits sum.splits prod.splits)
qed

lemma process_links_keeps_known:
  "process_links e ph d ls acc s = (r, s') \<Longrightarrow> known e s v \<Longrightarrow> known e s' v"
proof (induction ls arbitrary: acc s)
  case Nil
  then show ?case by simp
next
  case (Cons l ls)
  then show ?case
    by (auto split: if_splits option.splits sum.splits prod.splits
        intro: known_store_add_other)
qed

lemma process_links_all_known:
  "process_links e ph d ls acc s = (Inr out, s') \<Longrightarrow> list_all (known e s) acc \<Longrightarrow>
     list_all (known e s') out"
proof (induction ls arbitrary: acc s)
  case Nil
  then show ?case by simp
next
  case (Cons l ls)
  show ?case
  proof (cases "link_url l = []")
    case True
    with Cons show ?thesis by simp
  next
    case ne: False
    show ?thesis
    proof (cases "resolve_link (base_url e) (link_url l)")
      case None
      with ne Cons show ?thesis by simp
    next
      case (Some u)
      show ?thesis
      proof (cases "classify e u")
        case (Inl x)
        with ne Some Cons.prems show ?thesis by simp
      next
        case (Inr cp)
        obtain c pr where cp: "cp = (c, pr)" by (cases cp)
        show ?thesis
        proof (cases "0 < pr \<and> u \<notin> set acc")
          case True
          let ?s1 = "store_add e s u c ph (d + 1)"
          from True ne Some Inr cp Cons.prems(1)
          have run: "process_links e ph d ls (acc @ [u]) ?s1 = (Inr out, s')" by simp
          have "list_all (known e ?s1) (acc @ [u])"
            using Cons.prems(2) known_store_add_same [of e s u c ph "d + 1"]
            by (auto simp: list_all_iff intro: known_store_add_other)
          with Cons.IH [OF run] show ?thesis .
        next
          case False
          with ne Some Inr cp Cons.prems(1)
          have run: "process_links e ph d ls acc s = (Inr out, s')" by auto
          from Cons.IH [OF run Cons.prems(2)] show ?thesis .
        qed
      qed
    qed
  qed
qed

lemma known_frame:
  "mapsite_file (storage s') = mapsite_file (storage s) \<Longrightarrow> known e s' v = known e s v"
  unfolding known_def using known_time_irrelevant by simp

lemma process_complete_response_all_known:
  assumes "process_complete_response e s r src ph d c = (Inr out, s')"
  shows "list_all (known e s') out"
proof (cases "has_links r")
  case False
  with assms show ?thesis by (simp add: process_complete_response_def Let_def)
next
  case True
  with assms show ?thesis
    by (auto simp: process_complete_response_def Let_def dest: process_links_all_known)
qed

lemma process_complete_response_frame:
  assumes "process_complete_response e s r src ph d c = (res, s')"
  shows "crawl_queue s' = crawl_queue s \<and> queued_urls s' = queued_urls s
     \<and> failed_urls s' = failed_urls s \<and> world s' = world s"
proof (cases "has_links r")
  case False
  with assms show ?thesis by (auto simp: process_complete_response_def Let_def)
next
  case True
  with assms show ?thesis
    by (auto simp: process_complete_response_def Let_def dest!: process_links_frame)
qed

lemma crawl_single_url_empty: "fst (crawl_single_url e s u d c ph) = []"
proof -
  obtain res w where sc: "scrape_url e (world s) u = (res, w)" by (cases "scrape_url e (world s) u")
  show ?thesis
  proof (cases res)
    case (Inl x)
    with sc show ?thesis by (simp add: crawl_single_url_def)
  next
    case (Inr result)
    obtain r2 s2 where pr: "process_complete_response e (s\<lparr>world := w\<rparr>) result u ph d c = (r2, s2)"
      by (cases "process_complete_response e (s\<lparr>world := w\<rparr>) result u ph d c")
    show ?thesis
    proof (cases r2)
      case (Inl x)
      with sc Inr pr show ?thesis by (simp add: crawl_single_url_def)
    next
      case out: (Inr new_urls)
      from pr out have "list_all (known e s2) new_urls"
        using process_complete_response_all_known by blast
      then have "filter (\<lambda>v. \<not> known e s2 v) new_urls = []"
        by (simp add: list_all_iff filter_empty_conv)
      with sc Inr pr out show ?thesis by (simp add: crawl_single_url_def)
    qed
  qed
qed

lemma crawl_single_url_queue:
  "crawl_queue (snd (crawl_single_url e s u d c ph)) = crawl_queue s"
  by (auto simp: crawl_single_url_def split: prod.splits sum.splits
      dest!: process_complete_response_frame)

lemma phase2_iteration_pops:
  assumes "crawl_queue s \<noteq> []"
  shows "fst (phase2_iteration e acc s) = Inr acc
     \<and> crawl_queue (snd (phase2_iteration e acc s)) = tl (crawl_queue s)"
proof -
  from assms obtain u d c rest where q: "crawl_queue s = (u, d, c) # rest"
    by (cases "crawl_queue s") auto
  let ?s1 = "s\<lparr>crawl_queue := rest\<rparr>"
  show ?thesis
  proof (cases "known e ?s1 u")
    case True
    with q show ?thesis by (simp add: phase2_iteration_def Let_def)
  next
    case False
    obtain nu s2 where cr: "crawl_single_url e ?s1 u d c ''phase2_recursive'' = (nu, s2)"
      by (cases "crawl_single_url e ?s1 u d c ''phase2_recursive''")
    have nu: "nu = []" using crawl_single_url_empty [of e ?s1 u d c "''phase2_recursive''"] cr by simp
    have q2: "crawl_queue s2 = rest"
      using crawl_single_url_queue [of e ?s1 u d c "''phase2_recursive''"] cr by simp
    from q False cr nu q2 show ?thesis by (simp add: phase2_iteration_def Let_def)
  qed
qed

text \<open>
  The \<^verbatim>\<open>while self.crawl_queue\<close> loop of \<^verbatim>\<open>phase2_recursive_discovery\<close>, with the list
  \<^verbatim>\<open>phase2_urls\<close> it builds.
\<close>

function phase2_loop ::
  "'w env \<Rightarrow> string list \<Rightarrow> 'w ultra_deep_mapsite
     \<Rightarrow> (exn + string list) \<times> 'w ultra_deep_mapsite" where
  "phase2_loop e phase2_urls s =
     (if crawl_queue s = [] then (Inr phase2_urls, s)
      else case phase2_iteration e phase2_urls s of
        (Inl x, s') \<Rightarrow> (Inl x, s')
      | (Inr urls, s') \<Rightarrow> phase2_loop e urls s')"
  by pat_completeness auto
termination
proof (relation "measure (\<lambda>(e, urls, s). length (crawl_queue s))")
  show "wf (measure (\<lambda>(e, urls, s). length (crawl_queue s)))" by simp
next
  fix e :: "'w env" and phase2_urls s x s' urls
  assume ne: "crawl_queue s \<noteq> []" and it: "(x, s') = phase2_iteration e phase2_urls s"
  from phase2_iteration_pops [OF ne, of e phase2_urls] it [symmetric]
  have "crawl_queue s' = tl (crawl_queue s)" by simp
  with ne show "((e, urls, s'), (e, phase2_urls, s)) \<in> measure (\<lambda>(e, urls, s). length (crawl_queue s))"
    by (cases "crawl_queue s") auto
qed

definition phase2_recursive_discovery ::
  "'w env \<Rightarrow> 'w ultra_deep_mapsite \<Rightarrow> (exn + string list) \<times> 'w ultra_deep_mapsite" where
  "phase2_recursive_discovery e s = phase2_loop e [] s"

section \<open>Properties of the recursive phase\<close>

lemma phase2_loop_result: "fst (phase2_loop e acc s) = Inr acc \<and> crawl_queue (snd (phase2_loop e acc s)) = []"
proof (induction e acc s rule: phase2_loop.induct)
  case (1 e phase2_urls s)
  show ?case
  proof (cases "crawl_queue s = []")
    case True
    then show ?thesis by simp
  next
    case False
    obtain r s' where it: "phase2_iteration e phase2_urls s = (r, s')"
      by (cases "phase2_iteration e phase2_urls s")
    from phase2_iteration_pops [OF False, of e phase2_urls] it
    have r: "r = Inr phase2_urls" by simp
    from "1.IH" [OF False it [symmetric] r] False it r
    show ?thesis by simp
  qed
qed

lemma phase2_iteration_state: "snd (phase2_iteration e acc s) = snd (phase2_iteration e [] s)"
proof (cases "crawl_queue s")
  case Nil
  then show ?thesis by (simp add: phase2_iteration_def)
next
  case (Cons x rest)
  obtain u d c where x: "x = (u, d, c)" by (cases x)
  let ?s1 = "s\<lparr>crawl_queue := rest\<rparr>"
  obtain nu s2 where cr: "crawl_single_url e ?s1 u d c ''phase2_recursive'' = (nu, s2)"
    by (cases "crawl_single_url e ?s1 u d c ''phase2_recursive''")
  have nu: "nu = []" using crawl_single_url_empty [of e ?s1 u d c "''phase2_recursive''"] cr by simp
  from Cons x cr nu show ?thesis by (simp add: phase2_iteration_def Let_def)
qed

lemma phase2_loop_iterates:
  "snd (phase2_loop e acc s) = (phase2_pass e ^^ length (crawl_queue s)) s"
proof (induction e acc s rule: phase2_loop.induct)
  case (1 e phase2_urls s)
  show ?case
  proof (cases "crawl_queue s = []")
    case True
    then show ?thesis by simp
  next
    case False
    obtain r s' where it: "phase2_iteration e phase2_urls s = (r, s')"
      by (cases "phase2_iteration e phase2_urls s")
    from phase2_iteration_pops [OF False, of e phase2_urls] it
    have r: "r = Inr phase2_urls" and q: "crawl_queue s' = tl (crawl_queue s)" by simp_all
    have s': "s' = phase2_pass e s"
      using phase2_iteration_state [of e phase2_urls s] it by (simp add: phase2_pass_def)
    from False q have len: "length (crawl_queue s) = Suc (length (crawl_queue s'))"
      by (cases "crawl_queue s") auto
    have "snd (phase2_loop e phase2_urls s) = snd (phase2_loop e phase2_urls s')"
      using False it r by simp
    also have "\<dots> = (phase2_pass e ^^ length (crawl_queue s')) s'"
      using "1.IH" [OF False it [symmetric] r] .
    also have "\<dots> = (phase2_pass e ^^ length (crawl_queue s)) s"
      unfolding len s' by (simp add: funpow_swap1)
    finally show ?thesis .
  qed
qed

lemma phase2_pass_queue:
  "crawl_queue s \<noteq> [] \<Longrightarrow> crawl_queue (phase2_pass e s) = tl (crawl_queue s)"
  using phase2_iteration_pops [of s e "[]"] by (simp add: phase2_pass_def)

lemma phase2_passes_queue:
  "k \<le> length (crawl_queue s) \<Longrightarrow>
   crawl_queue ((phase2_pass e ^^ k) s) = drop k (crawl_queue s)"
proof (induction k)
  case 0
  then show ?case by simp
next
  case (Suc k)
  let ?t = "(phase2_pass e ^^ k) s"
  from Suc have q: "crawl_queue ?t = drop k (crawl_queue s)" by simp
  with Suc.prems have ne: "crawl_queue ?t \<noteq> []" by simp
  from phase2_pass_queue [OF ne, of e] q
  show ?case by (simp add: drop_Suc tl_drop)
qed

lemma known_stored: "known e s u = (u \<in> set (stored_urls s))"
  by (simp add: known_def is_url_already_discovered_def stored_urls_def load_mapsite_def
      existing_urls_def empty_mapsite_def split: option.splits)

lemma stored_urls_store_add:
  "stored_urls (store_add e s u c p d) =
     (if u \<in> set (stored_urls s) then stored_urls s else stored_urls s @ [u])"
  by (simp add: stored_urls_def store_add_def add_url_to_mapsite_def save_mapsite_update_def
      load_mapsite_def existing_urls_def empty_mapsite_def Let_def split: option.splits)

lemma count_consistent_store_add:
  "count_consistent (mapsite_file (storage s)) \<Longrightarrow>
   count_consistent (mapsite_file (storage (store_add e s u c p d)))"
  by (simp add: store_add_def count_consistent_add)

lemma process_links_tracks_store:
  "process_links e ph d ls acc s = (Inr out, s') \<Longrightarrow> stored_urls s = acc \<Longrightarrow>
   count_consistent (mapsite_file (storage s)) \<Longrightarrow> list_all (accepted e) acc \<Longrightarrow>
     stored_urls s' = out \<and> count_consistent (mapsite_file (storage s')) \<and> list_all (accepted e) out"
proof (induction ls arbitrary: acc s)
  case Nil
  then show ?case by simp
next
  case (Cons l ls)
  show ?case
  proof (cases "link_url l = []")
    case True
    with Cons show ?thesis by simp
  next
    case ne: False
    show ?thesis
    proof (cases "resolve_link (base_url e) (link_url l)")
      case None
      with ne Cons show ?thesis by simp
    next
      case (Some u)
      show ?thesis
      proof (cases "classify e u")
        case (Inl x)
        with ne Some Cons.prems show ?thesis by simp
      next
        case (Inr cp)
        obtain c pr where cp: "cp = (c, pr)" by (cases cp)
        show ?thesis
        proof (cases "0 < pr \<and> u \<notin> set acc")
          case True
          let ?s1 = "store_add e s u c ph (d + 1)"
          from True ne Some Inr cp Cons.prems(1)
          have run: "process_links e ph d ls (acc @ [u]) ?s1 = (Inr out, s')" by simp
          have a: "stored_urls ?s1 = acc @ [u]"
            using True Cons.prems(2) by (simp add: stored_urls_store_add)
          have b: "count_consistent (mapsite_file (storage ?s1))"
            using Cons.prems(3) by (rule count_consistent_store_add)
          have "accepted e u" using True Inr cp by (simp add: accepted_def)
          with Cons.prems(4) have c: "list_all (accepted e) (acc @ [u])" by simp
          from Cons.IH [OF run a b c] show ?thesis .
        next
          case False
          with ne Some Inr cp Cons.prems(1)
          have run: "process_links e ph d ls acc s = (Inr out, s')" by auto
          from Cons.IH [OF run Cons.prems(2,3,4)] show ?thesis .
        qed
      qed
    qed
  qed
qed

lemma phase1_enqueue_accepted:
  "list_all (accepted e) urls \<Longrightarrow>
   fst (phase1_enqueue e urls s) = None
   \<and> map fst (crawl_queue (snd (phase1_enqueue e urls s))) = map fst (crawl_queue s) @ urls
   \<and> storage (snd (phase1_enqueue e urls s)) = storage s
   \<and> world (snd (phase1_enqueue e urls s)) = world s"
proof (induction urls arbitrary: s)
  case Nil
  then show ?case by simp
next
  case (Cons u us)
  then show ?case
    by (auto simp: accepted_def split: sum.splits prod.splits)
qed

lemma stored_urls_scraped [simp]:
  "stored_urls (s\<lparr>storage := save_scraped_content t (storage s) u r p d c\<rparr>) = stored_urls s"
  by (simp add: stored_urls_def save_scraped_content_def)

lemma stored_urls_world [simp]: "stored_urls (s\<lparr>world := w\<rparr>) = stored_urls s"
  by (simp add: stored_urls_def)

lemma stored_urls_init [simp]: "stored_urls (engine_init e empty_disk w) = []"
  by (simp add: stored_urls_def engine_init_def empty_disk_def storage_init_def
      save_mapsite_update_def empty_mapsite_def)

lemma total_urls_stored:
  "count_consistent (mapsite_file (storage s)) \<Longrightarrow>
   total_urls (get_current_stats t (mapsite_file (storage s))) = int (length (stored_urls s))"
  by (simp add: count_consistent_def get_current_stats_def stored_urls_def load_mapsite_def
      empty_mapsite_def Let_def split: option.splits)

lemma phase1_seeds_stored:
  assumes run: "phase1_foundation_discovery e (engine_init e empty_disk w) = (urls, s1)"
    and ne: "urls \<noteq> []"
  shows "map fst (crawl_queue s1) = urls \<and> stored_urls s1 = urls
       \<and> count_consistent (mapsite_file (storage s1))"
proof -
  let ?s0 = "engine_init e empty_disk w"
  obtain res w1 where sc: "scrape_url e (world ?s0) (base_url e) = (res, w1)"
    by (cases "scrape_url e (world ?s0) (base_url e)")
  from run ne sc obtain result where res: "res = Inr result"
    by (cases res) (auto simp: phase1_foundation_discovery_def)
  from run ne sc res have hl: "has_links result"
    by (auto simp: phase1_foundation_discovery_def split: if_splits)
  let ?sa = "?s0\<lparr>world := w1\<rparr>"
  let ?sb = "?sa\<lparr>storage := save_scraped_content (current_time e ?sa) (storage ?sa) (base_url e)
      result ''phase1_foundation'' 0 ''homepage''\<rparr>"
  obtain r2 s2 where pl: "process_links e ''phase1_foundation'' 0 (links_of result) [] ?sb = (r2, s2)"
    by (cases "process_links e ''phase1_foundation'' 0 (links_of result) [] ?sb")
  have pcr: "process_complete_response e ?sa result (base_url e) ''phase1_foundation'' 0 ''homepage''
      = (r2, s2)"
    using hl pl by (simp add: process_complete_response_def Let_def)
  from run ne sc res hl pcr obtain fu where r2: "r2 = Inr fu"
    by (cases r2) (auto simp: phase1_foundation_discovery_def)
  have q0: "crawl_queue ?sb = []" by (simp add: engine_init_def)
  have cc: "count_consistent (mapsite_file (storage ?sb))"
    by (simp add: engine_init_def empty_disk_def save_scraped_content_def count_consistent_def
        storage_init_def save_mapsite_update_def empty_mapsite_def)
  have st: "stored_urls ?sb = []"
    by (simp add: stored_urls_def engine_init_def empty_disk_def save_scraped_content_def
        storage_init_def save_mapsite_update_def empty_mapsite_def)
  from process_links_tracks_store [OF pl [unfolded r2] st cc]
  have tr: "stored_urls s2 = fu" "count_consistent (mapsite_file (storage s2))"
    "list_all (accepted e) fu" by simp_all
  from process_links_frame [OF pl] q0 have q2: "crawl_queue s2 = []" by simp
  note en = phase1_enqueue_accepted [OF tr(3), of s2]
  obtain r3 s3 where pe: "phase1_enqueue e fu s2 = (r3, s3)" by (cases "phase1_enqueue e fu s2")
  with en have r3: "r3 = None" and q3: "map fst (crawl_queue s3) = fu"
    and st3: "storage s3 = storage s2" using q2 by simp_all
  from run sc res hl pcr r2 pe r3 have "urls = fu" "s1 = s3"
    by (simp_all add: phase1_foundation_discovery_def)
  with q3 st3 tr show ?thesis by (simp add: stored_urls_def)
qed

lemma phase2_pass_known_head:
  assumes "crawl_queue s \<noteq> []" "known e s (fst (hd (crawl_queue s)))"
  shows "phase2_pass e s = s\<lparr>crawl_queue := tl (crawl_queue s)\<rparr>"
proof -
  from assms(1) obtain u d c rest where q: "crawl_queue s = (u, d, c) # rest"
    by (cases "crawl_queue s") auto
  have "known e (s\<lparr>crawl_queue := rest\<rparr>) u" using assms(2) q by (simp add: known_def current_time_def)
  with q show ?thesis by (simp add: phase2_pass_def phase2_iteration_def Let_def)
qed

lemma phase2_passes_all_known:
  "list_all (\<lambda>x. known e s (fst x)) (crawl_queue s) \<Longrightarrow>
   (phase2_pass e ^^ length (crawl_queue s)) s = s\<lparr>crawl_queue := []\<rparr>"
proof (induction "crawl_queue s" arbitrary: s)
  case Nil
  then show ?case by simp
next
  case (Cons x rest)
  let ?s1 = "s\<lparr>crawl_queue := rest\<rparr>"
  from Cons.hyps(2) [symmetric] Cons.prems
  have p: "phase2_pass e s = ?s1"
    using phase2_pass_known_head [of s e] by simp
  have k: "list_all (\<lambda>x. known e ?s1 (fst x)) (crawl_queue ?s1)"
    using Cons.prems Cons.hyps(2) [symmetric] by (simp add: known_def current_time_def)
  have "rest = crawl_queue ?s1" by simp
  from Cons.hyps(1) [OF this k]
  have "(phase2_pass e ^^ length rest) ?s1 = s\<lparr>crawl_queue := []\<rparr>" by simp
  with p Cons.hyps(2) [symmetric] show ?case by (simp add: funpow_swap1)
qed

lemma phase2_enqueue_guarded:
  "phase2_enqueue e d us s = (r, s') \<Longrightarrow>
     storage s' = storage s \<and> world s' = world s \<and> queued_urls s \<subseteq> queued_urls s'
     \<and> (\<exists>added. crawl_queue s' = crawl_queue s @ added
          \<and> list_all (\<lambda>x. \<not> known e s (fst x) \<and> fst x \<notin> queued_urls s \<and> fst x \<in> set us
                          \<and> fst (snd x) = d + 1) added)"
proof (induction us arbitrary: s)
  case Nil
  then show ?case by simp
next
  case (Cons u us)
  show ?case
  proof (cases "\<not> known e s u \<and> u \<notin> queued_urls s")
    case False
    with Cons.prems have run: "phase2_enqueue e d us s = (r, s')" by auto
    from Cons.IH [OF run] show ?thesis
      by (auto simp: list_all_iff)
  next
    case guard: True
    show ?thesis
    proof (cases "classify e u")
      case (Inl x)
      with guard Cons.prems show ?thesis by auto
    next
      case (Inr cp)
      obtain c pr where cp: "cp = (c, pr)" by (cases cp)
      show ?thesis
      proof (cases "0 < pr")
        case False
        with guard Inr cp Cons.prems have run: "phase2_enqueue e d us s = (r, s')" by auto
        from Cons.IH [OF run] show ?thesis by (auto simp: list_all_iff)
      next
        case True
        let ?s1 = "s\<lparr>crawl_queue := crawl_queue s @ [(u, d + 1, c)],
                      queued_urls := insert u (queued_urls s)\<rparr>"
        from True guard Inr cp Cons.prems have run: "phase2_enqueue e d us ?s1 = (r, s')" by auto
        from Cons.IH [OF run] obtain added where
          fr: "storage s' = storage s" "world s' = world s" "insert u (queued_urls s) \<subseteq> queued_urls s'"
          and q: "crawl_queue s' = (crawl_queue s @ [(u, d + 1, c)]) @ added"
          and al: "list_all (\<lambda>x. \<not> known e ?s1 (fst x) \<and> fst x \<notin> insert u (queued_urls s)
                      \<and> fst x \<in> set us \<and> fst (snd x) = d + 1) added"
          by auto
        have kn: "\<And>v. known e ?s1 v = known e s v" by (simp add: known_def current_time_def)
        have "list_all (\<lambda>x. \<not> known e s (fst x) \<and> fst x \<notin> queued_urls s \<and> fst x \<in> set (u # us)
                      \<and> fst (snd x) = d + 1) ((u, d + 1, c) # added)"
          using al guard by (auto simp: list_all_iff kn)
        moreover have "crawl_queue s' = crawl_queue s @ ((u, d + 1, c) # added)" using q by simp
        ultimately show ?thesis using fr by blast
      qed
    qed
  qed
qed

lemma phase2_iteration_known_head:
  assumes "crawl_queue s \<noteq> []" "known e s (fst (hd (crawl_queue s)))"
  shows "phase2_iteration e acc s = (Inr acc, s\<lparr>crawl_queue := tl (crawl_queue s)\<rparr>)"
proof -
  from assms(1) obtain u d c rest where q: "crawl_queue s = (u, d, c) # rest"
    by (cases "crawl_queue s") auto
  have "known e (s\<lparr>crawl_queue := rest\<rparr>) u" using assms(2) q by (simp add: known_def current_time_def)
  with q show ?thesis by (simp add: phase2_iteration_def Let_def)
qed

text \<open>The runs on the site with three links, evaluated.\<close>

lemma three_processed:
  "process_complete_response (site three_links)
     ((engine_init (site three_links) empty_disk 0)\<lparr>world := 1\<rparr>) (page three_links)
     ''https://example.com'' ''phase1_foundation'' 0 ''homepage'' = (Inr three_urls, stored_three)"
  by code_simp

lemma three_enqueued:
  "phase1_enqueue (site three_links) three_urls stored_three = (None, seeded_three)"
  by code_simp

lemma three_phase1:
  "phase1_foundation_discovery (site three_links) (engine_init (site three_links) empty_disk 0)
     = (three_urls, seeded_three)"
  by code_simp

lemma three_second_look:
  "phase2_enqueue (site three_links) 1 [''https://example.com/a'', ''https://example.com/new'']
     seeded_three
   = (None, seeded_three\<lparr>crawl_queue := crawl_queue seeded_three
                             @ [(''https://example.com/new'', 2, ''general'')],
                           queued_urls := insert ''https://example.com/new'' (queued_urls seeded_three)\<rparr>)"
  by code_simp

lemma three_head_known:
  "crawl_queue seeded_three \<noteq> [] \<and> known (site three_links) seeded_three (fst (hd (crawl_queue seeded_three)))"
  by code_simp

lemma three_queue:
  "crawl_queue seeded_three = [(''https://example.com/a'', 1, ''general''),
      (''https://example.com/b'', 1, ''general''), (''https://example.com/c'', 1, ''general'')]"
  by (simp add: seeded_three_def three_urls_def)

text \<open>
  Claim C2. Every URL in the list \<^verbatim>\<open>_process_complete_response\<close> returns is in the
  store when the function returns. Hence \<^verbatim>\<open>_crawl_single_url\<close> returns the empty list
  whatever the fetch gives (its filter keeps only URLs the store does not hold, and an
  exception returns the empty list too); hence a pass of the loop of phase 2 takes the
  first entry off the queue and enqueues nothing, and phase 2 returns the empty list.
\<close>

theorem returned_urls_already_stored:
  "(\<forall>out s'. process_complete_response e s r src ph d c = (Inr out, s') \<longrightarrow>
        list_all (known e s') out)
   \<and> fst (crawl_single_url e s u d c ph) = []
   \<and> (crawl_queue s \<noteq> [] \<longrightarrow>
        fst (phase2_iteration e acc s) = Inr acc
        \<and> crawl_queue (snd (phase2_iteration e acc s)) = tl (crawl_queue s))
   \<and> fst (phase2_recursive_discovery e s) = Inr []"
  using process_complete_response_all_known [of e s r src ph d c]
    crawl_single_url_empty [of e s u d c ph]
    phase2_iteration_pops [of s e acc]
    phase2_loop_result [of e "[]" s]
  by (simp add: phase2_recursive_discovery_def)

theorem returned_urls_already_stored_witness:
  "process_complete_response (site three_links)
     ((engine_init (site three_links) empty_disk 0)\<lparr>world := 1\<rparr>) (page three_links)
     ''https://example.com'' ''phase1_foundation'' 0 ''homepage'' = (Inr three_urls, stored_three)
   \<and> list_all (known (site three_links) stored_three) three_urls
   \<and> crawl_queue seeded_three \<noteq> []
   \<and> fst (phase2_iteration (site three_links) [] seeded_three) = Inr []
   \<and> crawl_queue (snd (phase2_iteration (site three_links) [] seeded_three))
       = [(''https://example.com/b'', 1, ''general''), (''https://example.com/c'', 1, ''general'')]"
proof -
  note th = returned_urls_already_stored [of "site three_links"
      "(engine_init (site three_links) empty_disk 0)\<lparr>world := 1\<rparr>" "page three_links"
      "''https://example.com''" "''phase1_foundation''" 0 "''homepage''"]
  have a: "list_all (known (site three_links) stored_three) three_urls"
    using th three_processed by blast
  have q: "crawl_queue seeded_three = [(''https://example.com/a'', 1, ''general''),
      (''https://example.com/b'', 1, ''general''), (''https://example.com/c'', 1, ''general'')]"
    by (simp add: seeded_three_def three_urls_def)
  note th2 = returned_urls_already_stored [of "site three_links" seeded_three _ _ _ _ _ _ "[]"]
  from th2 q have b: "fst (phase2_iteration (site three_links) [] seeded_three) = Inr []
     \<and> crawl_queue (snd (phase2_iteration (site three_links) [] seeded_three))
       = tl (crawl_queue seeded_three)" by simp
  from three_processed a q b show ?thesis by simp
qed

text \<open>
  Claim C5, as amended. In the recursive phase the store decides: the loop that enqueues
  the links of a fetched page appends only URLs that the store does not hold and that
  are not in the queued set, each at the depth of the page plus one; and a pass of the
  loop that dequeues a URL the store holds returns the engine unchanged but for the
  queue, which has lost that entry: nothing is fetched, saved or recorded.
\<close>

theorem recursive_phase_store_dedup:
  "(\<forall>r s'. phase2_enqueue e d new_urls s = (r, s') \<longrightarrow>
       (\<exists>added. crawl_queue s' = crawl_queue s @ added
          \<and> list_all (\<lambda>x. \<not> known e s (fst x) \<and> fst x \<notin> queued_urls s \<and> fst x \<in> set new_urls
                          \<and> fst (snd x) = d + 1) added))
   \<and> (crawl_queue s \<noteq> [] \<and> known e s (fst (hd (crawl_queue s))) \<longrightarrow>
        phase2_iteration e acc s = (Inr acc, s\<lparr>crawl_queue := tl (crawl_queue s)\<rparr>))"
  using phase2_enqueue_guarded [of e d new_urls s] phase2_iteration_known_head [of s e acc]
  by blast

theorem recursive_phase_store_dedup_witness:
  "phase2_enqueue (site three_links) 1 [''https://example.com/a'', ''https://example.com/new'']
     seeded_three
   = (None, seeded_three\<lparr>crawl_queue := crawl_queue seeded_three
                             @ [(''https://example.com/new'', 2, ''general'')],
                           queued_urls := insert ''https://example.com/new'' (queued_urls seeded_three)\<rparr>)
   \<and> (\<exists>added. crawl_queue seeded_three @ [(''https://example.com/new'', 2, ''general'')]
          = crawl_queue seeded_three @ added
        \<and> list_all (\<lambda>x. \<not> known (site three_links) seeded_three (fst x)
             \<and> fst x \<notin> queued_urls seeded_three
             \<and> fst x \<in> set [''https://example.com/a'', ''https://example.com/new'']
             \<and> fst (snd x) = 1 + 1) added)
   \<and> crawl_queue seeded_three \<noteq> []
   \<and> known (site three_links) seeded_three (fst (hd (crawl_queue seeded_three)))
   \<and> phase2_iteration (site three_links) [] seeded_three
       = (Inr [], seeded_three\<lparr>crawl_queue := tl (crawl_queue seeded_three)\<rparr>)"
proof -
  note th = recursive_phase_store_dedup [of "site three_links" 1
      "[''https://example.com/a'', ''https://example.com/new'']" seeded_three "[]"]
  note p1 = th [THEN conjunct1, rule_format, OF three_second_look]
  have a: "\<exists>added. crawl_queue seeded_three @ [(''https://example.com/new'', 2, ''general'')]
          = crawl_queue seeded_three @ added
        \<and> list_all (\<lambda>x. \<not> known (site three_links) seeded_three (fst x)
             \<and> fst x \<notin> queued_urls seeded_three
             \<and> fst x \<in> set [''https://example.com/a'', ''https://example.com/new'']
             \<and> fst (snd x) = 1 + 1) added"
    using p1 by simp
  note b = th [THEN conjunct2, rule_format, OF three_head_known]
  from three_second_look a three_head_known b show ?thesis by (intro conjI) simp_all
qed

text \<open>
  The claim as the spec words it fails in the foundation phase, which enqueues without
  asking the store: on the site with three links, when phase 1 has processed the seed
  response all three URLs are in the store and the queue is empty, and the loop that
  follows puts every one of them in the queue.
\<close>

theorem foundation_enqueues_stored_urls:
  "process_complete_response (site three_links)
     ((engine_init (site three_links) empty_disk 0)\<lparr>world := 1\<rparr>) (page three_links)
     ''https://example.com'' ''phase1_foundation'' 0 ''homepage'' = (Inr three_urls, stored_three)
   \<and> list_all (known (site three_links) stored_three) three_urls
   \<and> crawl_queue stored_three = []
   \<and> phase1_enqueue (site three_links) three_urls stored_three = (None, seeded_three)
   \<and> map fst (crawl_queue seeded_three) = three_urls
   \<and> phase1_foundation_discovery (site three_links) (engine_init (site three_links) empty_disk 0)
       = (three_urls, seeded_three)"
proof -
  have a: "list_all (known (site three_links) stored_three) three_urls"
    using process_complete_response_all_known [OF three_processed] .
  have b: "crawl_queue stored_three = []" by (simp add: stored_three_def)
  have c: "map fst (crawl_queue seeded_three) = three_urls"
    by (simp add: seeded_three_def three_urls_def)
  from three_processed a b three_enqueued c three_phase1 show ?thesis by (intro conjI)
qed

text \<open>
  Claim C8. The loop of phase 2 is a total function: for every engine state, fetch
  behaviour and queue, of any length and with entries of any depth, it returns, with an
  empty queue, after exactly as many passes as the queue had entries, and the queue is
  not empty before any of these passes. When phase 1, started on an empty data directory,
  has returned a list of URLs that is not empty, the queue holds as many entries as that
  list, phase 2 leaves the engine as it found it but for the emptied queue, and
  \<^verbatim>\<open>get_current_stats()['total_urls']\<close> is then the number of entries the queue was
  seeded with: 3 for a seed of 3 URLs, as the witness shows.
\<close>

theorem recursive_phase_terminates:
  assumes run: "phase1_foundation_discovery e (engine_init e empty_disk w) = (urls, s1)"
    and ne: "urls \<noteq> []"
  shows "fst (phase2_recursive_discovery e s) = Inr []
       \<and> crawl_queue (snd (phase2_recursive_discovery e s)) = []
       \<and> snd (phase2_recursive_discovery e s) = (phase2_pass e ^^ length (crawl_queue s)) s
       \<and> (\<forall>k<length (crawl_queue s). crawl_queue ((phase2_pass e ^^ k) s) \<noteq> [])
       \<and> length (crawl_queue s1) = length urls
       \<and> snd (phase2_recursive_discovery e s1) = s1\<lparr>crawl_queue := []\<rparr>
       \<and> total_urls (get_current_stats t
            (mapsite_file (storage (snd (phase2_recursive_discovery e s1)))))
          = int (length (crawl_queue s1))"
proof -
  have g1: "fst (phase2_recursive_discovery e s) = Inr []"
    using phase2_loop_result [of e "[]" s] by (simp add: phase2_recursive_discovery_def)
  have g1': "crawl_queue (snd (phase2_recursive_discovery e s)) = []"
    using phase2_loop_result [of e "[]" s] by (simp add: phase2_recursive_discovery_def)
  have g2: "snd (phase2_recursive_discovery e s) = (phase2_pass e ^^ length (crawl_queue s)) s"
    using phase2_loop_iterates [of e "[]" s] by (simp add: phase2_recursive_discovery_def)
  have g3: "\<forall>k<length (crawl_queue s). crawl_queue ((phase2_pass e ^^ k) s) \<noteq> []"
    by (simp add: phase2_passes_queue)
  from phase1_seeds_stored [OF run ne]
  have q: "map fst (crawl_queue s1) = urls" and st: "stored_urls s1 = urls"
    and cc: "count_consistent (mapsite_file (storage s1))" by simp_all
  have len: "length (crawl_queue s1) = length urls" using q by (metis length_map)
  have "set (stored_urls s1) = fst ` set (crawl_queue s1)" using q st by (metis set_map)
  then have "list_all (\<lambda>x. known e s1 (fst x)) (crawl_queue s1)"
    by (simp add: list_all_iff known_stored)
  from phase2_passes_all_known [OF this]
  have fin: "snd (phase2_recursive_discovery e s1) = s1\<lparr>crawl_queue := []\<rparr>"
    using phase2_loop_iterates [of e "[]" s1] by (simp add: phase2_recursive_discovery_def)
  have "storage (snd (phase2_recursive_discovery e s1)) = storage s1" unfolding fin by simp
  then have tot: "total_urls (get_current_stats t
            (mapsite_file (storage (snd (phase2_recursive_discovery e s1)))))
          = int (length (crawl_queue s1))"
    using total_urls_stored [OF cc, of t] st len by simp
  from g1 g1' g2 g3 len fin tot show ?thesis by (intro conjI)
qed

theorem recursive_phase_terminates_witness:
  "phase1_foundation_discovery (site three_links) (engine_init (site three_links) empty_disk 0)
     = (three_urls, seeded_three)
   \<and> three_urls \<noteq> []
   \<and> length (crawl_queue seeded_three) = 3
   \<and> crawl_queue ((phase2_pass (site three_links) ^^ 2) seeded_three) \<noteq> []
   \<and> crawl_queue (snd (phase2_recursive_discovery (site three_links) seeded_three)) = []
   \<and> snd (phase2_recursive_discovery (site three_links) seeded_three)
       = (phase2_pass (site three_links) ^^ 3) seeded_three
   \<and> world (snd (phase2_recursive_discovery (site three_links) seeded_three)) = 1
   \<and> total_urls (get_current_stats ''2025-01-01T00:01:00''
        (mapsite_file (storage (snd (phase2_recursive_discovery (site three_links) seeded_three)))))
       = 3"
proof -
  have ne: "three_urls \<noteq> []" by (simp add: three_urls_def)
  have len: "length (crawl_queue seeded_three) = 3" by (simp add: three_queue)
  note th = recursive_phase_terminates [OF three_phase1 ne, of seeded_three "''2025-01-01T00:01:00''"]
  note c = th [THEN conjunct2, THEN conjunct1]
  note b0 = th [THEN conjunct2, THEN conjunct2, THEN conjunct1]
  note all = th [THEN conjunct2, THEN conjunct2, THEN conjunct2, THEN conjunct1]
  note d = th [THEN conjunct2, THEN conjunct2, THEN conjunct2, THEN conjunct2, THEN conjunct2,
      THEN conjunct1]
  note t0 = th [THEN conjunct2, THEN conjunct2, THEN conjunct2, THEN conjunct2, THEN conjunct2,
      THEN conjunct2]
  have "(2::nat) < length (crawl_queue seeded_three)" unfolding len by simp
  with all have a: "crawl_queue ((phase2_pass (site three_links) ^^ 2) seeded_three) \<noteq> []"
    by blast
  have b: "snd (phase2_recursive_discovery (site three_links) seeded_three)
       = (phase2_pass (site three_links) ^^ 3) seeded_three" using b0 unfolding len .
  have "world (seeded_three\<lparr>crawl_queue := []\<rparr>) = 1"
    by (simp add: seeded_three_def stored_three_def)
  then have w: "world (snd (phase2_recursive_discovery (site three_links) seeded_three)) = 1"
    unfolding d .
  have t: "total_urls (get_current_stats ''2025-01-01T00:01:00''
        (mapsite_file (storage (snd (phase2_recursive_discovery (site three_links) seeded_three)))))
       = 3" using t0 unfolding len by simp
  from three_phase1 ne len a c b w t show ?thesis by (intro conjI)
qed

section \<open>Properties of the pattern analyzer\<close>

lemma ead_examples_run:
  "analyze_patterns py_urlparse ead_examples [] =
     (Inr [(''/ead/category/item-{id}'',
            map (\<lambda>i. ''/ead/curso/item-'' @ str_of_int i)
              (filter (\<lambda>i. i \<notin> {10, 12, 15}) [1..59]))],
      [(''/ead/category/item-{id}'', ead_examples)])"
  by code_simp

text \<open>
  Claim C3, as amended. Given exactly the URLs \<^verbatim>\<open>/ead/curso/item-10\<close>,
  \<^verbatim>\<open>/ead/curso/item-12\<close> and \<^verbatim>\<open>/ead/curso/item-15\<close>, a fresh analyzer returns one
  entry, under the template \<^verbatim>\<open>/ead/category/item-{id}\<close>, whose candidates are
  \<^verbatim>\<open>/ead/curso/item-i\<close> for every \<open>i\<close> from 1 (the larger of 1 and 10 - 10) to 59
  (10 + 50 - 1: the range ends 50 above the smallest identifier, not the largest) other
  than 10, 12 and 15, in increasing order.
\<close>

theorem ead_examples_candidates:
  "fst (analyze_patterns py_urlparse ead_examples []) =
     Inr [(''/ead/category/item-{id}'',
           map (\<lambda>i. ''/ead/curso/item-'' @ str_of_int i)
             (filter (\<lambda>i. i \<notin> {10, 12, 15}) [1..59]))]"
  using ead_examples_run by simp

lemma ead_candidates_bounds:
  "''/ead/curso/item-1'' \<in> set (map (\<lambda>i. ''/ead/curso/item-'' @ str_of_int i)
              (filter (\<lambda>i. i \<notin> {10, 12, 15}) [1..59]))"
  "''/ead/curso/item-59'' \<in> set (map (\<lambda>i. ''/ead/curso/item-'' @ str_of_int i)
              (filter (\<lambda>i. i \<notin> {10, 12, 15}) [1..59]))"
  "''/ead/curso/item-60'' \<notin> set (map (\<lambda>i. ''/ead/curso/item-'' @ str_of_int i)
              (filter (\<lambda>i. i \<notin> {10, 12, 15}) [1..59]))"
  "''/ead/curso/item-64'' \<notin> set (map (\<lambda>i. ''/ead/curso/item-'' @ str_of_int i)
              (filter (\<lambda>i. i \<notin> {10, 12, 15}) [1..59]))"
  by code_simp+

text \<open>
  The claim as the spec words it fails: no entry is keyed \<^verbatim>\<open>/ead/curso/item-{id}\<close>, and
  the candidates end at 59, so that neither 60 nor 64 is proposed.
\<close>

theorem ead_examples_stop_before_64:
  "\<exists>ps. fst (analyze_patterns py_urlparse ead_examples []) = Inr ps
     \<and> map_of ps ''/ead/curso/item-{id}'' = None
     \<and> ''/ead/curso/item-59'' \<in> set (concat (map snd ps))
     \<and> ''/ead/curso/item-60'' \<notin> set (concat (map snd ps))
     \<and> ''/ead/curso/item-64'' \<notin> set (concat (map snd ps))"
proof -
  let ?ps = "[(''/ead/category/item-{id}'',
            map (\<lambda>i. ''/ead/curso/item-'' @ str_of_int i)
              (filter (\<lambda>i. i \<notin> {10, 12, 15}) [1..59]))]"
  have a: "fst (analyze_patterns py_urlparse ead_examples []) = Inr ?ps"
    using ead_examples_run by simp
  have b: "map_of ?ps ''/ead/curso/item-{id}'' = None" by simp
  have c: "concat (map snd ?ps) = map (\<lambda>i. ''/ead/curso/item-'' @ str_of_int i)
              (filter (\<lambda>i. i \<notin> {10, 12, 15}) [1..59])" by simp
  show ?thesis
    apply (rule exI [of _ ?ps])
    unfolding c
    using a b ead_candidates_bounds by (intro conjI)
qed

text \<open>
  Claim C6 at three URLs of the shape \<^verbatim>\<open>/node/{id}\<close>. \<^verbatim>\<open>_extract_pattern\<close> recognises
  the shape of each, so the shape has three examples; \<^verbatim>\<open>_generate_pattern_variations\<close>
  looks for the identifier with \<^verbatim>\<open>-(\d+)\<close>, which no URL of this shape need contain,
  finds none, and the analyzer returns no candidate at all.
\<close>

theorem node_examples_no_candidates:
  "extract_pattern py_urlparse ''https://example.com/node/1'' = Inr (Some ''/node/{id}'')
   \<and> extract_pattern py_urlparse ''https://example.com/node/2'' = Inr (Some ''/node/{id}'')
   \<and> extract_pattern py_urlparse ''https://example.com/node/3'' = Inr (Some ''/node/{id}'')
   \<and> extract_ids node_examples = []
   \<and> analyze_patterns py_urlparse node_examples [] = (Inr [], [(''/node/{id}'', node_examples)])"
  by code_simp

section \<open>The seeding scenario\<close>

lemma scenario_phase1:
  "phase1_foundation_discovery (site scenario_links) (engine_init (site scenario_links) empty_disk 0)
     = ([''https://example.com/a'', ''https://example.com/b'', ''https://example.com/tel:123''],
        seeded_scenario)"
  by code_simp

lemma scenario_classes:
  "classify (site scenario_links) ''https://example.com/a'' = Inr (''general'', 1)"
  "classify (site scenario_links) ''https://example.com/b'' = Inr (''general'', 1)"
  "classify (site scenario_links) ''http://other.com/c'' = Inr (''external'', 0)"
  "classify (site scenario_links) ''tel:123'' = Inr (''invalid'', 0)"
  "resolve_link ''https://example.com'' ''tel:123'' = Some ''https://example.com/tel:123''"
  "classify (site scenario_links) ''https://example.com/tel:123'' = Inr (''general'', 1)"
  by code_simp+

text \<open>
  Claim C1 on the site \<^verbatim>\<open>https://example.com\<close>, whose seed page returns the links
  \<^verbatim>\<open>/a\<close>, \<^verbatim>\<open>/b\<close>, \<^verbatim>\<open>http://other.com/c\<close> and \<^verbatim>\<open>tel:123\<close>. The two paths are general
  at priority 1 and the foreign link is external at priority 0, as the claim says. The
  link \<^verbatim>\<open>tel:123\<close> is not excluded: alone it is invalid (it does not start with
  \<^verbatim>\<open>http\<close>), and \<^verbatim>\<open>_process_complete_response\<close> classifies it only after it has
  prefixed the base URL, as \<^verbatim>\<open>https://example.com/tel:123\<close>, which is general at
  priority 1. Phase 1 returns three URLs and enqueues three, each at depth 1.
\<close>

theorem seeding_scenario_enqueues_tel_link:
  "classify (site scenario_links) ''https://example.com/a'' = Inr (''general'', 1)
   \<and> classify (site scenario_links) ''https://example.com/b'' = Inr (''general'', 1)
   \<and> classify (site scenario_links) ''http://other.com/c'' = Inr (''external'', 0)
   \<and> classify (site scenario_links) ''tel:123'' = Inr (''invalid'', 0)
   \<and> resolve_link ''https://example.com'' ''tel:123'' = Some ''https://example.com/tel:123''
   \<and> classify (site scenario_links) ''https://example.com/tel:123'' = Inr (''general'', 1)
   \<and> fst (phase1_foundation_discovery (site scenario_links)
            (engine_init (site scenario_links) empty_disk 0))
       = [''https://example.com/a'', ''https://example.com/b'', ''https://example.com/tel:123'']
   \<and> crawl_queue (snd (phase1_foundation_discovery (site scenario_links)
            (engine_init (site scenario_links) empty_disk 0)))
       = [(''https://example.com/a'', 1, ''general''), (''https://example.com/b'', 1, ''general''),
          (''https://example.com/tel:123'', 1, ''general'')]"
  using scenario_classes by (simp add: scenario_phase1 seeded_scenario_def)

section \<open>Properties of the final summary\<close>

lemma map_of_count_incr:
  "map_of (count_incr m k) = (map_of m)(k \<mapsto> (case map_of m k of None \<Rightarrow> 1 | Some n \<Rightarrow> n + 1))"
  by (simp add: count_incr_def update_conv')

lemma map_of_counts:
  "map_of (foldl count_incr m ks) c =
     (if count_list ks c = 0 then map_of m c
      else Some ((case map_of m c of None \<Rightarrow> 0 | Some n \<Rightarrow> n) + count_list ks c))"
proof (induction ks arbitrary: m)
  case Nil
  then show ?case by simp
next
  case (Cons k ks)
  show ?case
    by (simp add: Cons.IH map_of_count_incr split: option.splits)
qed

lemma counted_listed:
  "0 < count_list ks c \<Longrightarrow> (c, count_list ks c) \<in> set (foldl count_incr [] ks)"
  using map_of_counts [of "[]" ks c] by (auto dest: map_of_SomeD)

lemma set_sorted_by_count: "set (sorted_by_count xs) = set xs"
  by (simp add: sorted_by_count_def)

text \<open>
  Claim C9, as amended. For every engine state, the lines
  \<^verbatim>\<open>save_ultra_comprehensive_results\<close> prints hold the total the store records (the
  number of its records, when the stored count is consistent), for every category the
  number of records of that category, and for every phase the number of records of that
  phase. The summary is read from the store alone: it is the same whatever the set of
  failed URLs holds, so it reports them in no way.
\<close>

theorem summary_reports_store_counts:
  "TotalURLs (total_urls (get_current_stats (current_time e s) (mapsite_file (storage s))))
     \<in> set (fst (save_ultra_comprehensive_results e s))
   \<and> (count_consistent (mapsite_file (storage s)) \<longrightarrow>
        TotalURLs (int (length (store_records e s)))
          \<in> set (fst (save_ultra_comprehensive_results e s)))
   \<and> (\<forall>c. 0 < count_list (map category (store_records e s)) c \<longrightarrow>
        CategoryCount c (count_list (map category (store_records e s)) c)
          \<in> set (fst (save_ultra_comprehensive_results e s)))
   \<and> (\<forall>p. 0 < count_list (map phase (store_records e s)) p \<longrightarrow>
        PhaseCount p (count_list (map phase (store_records e s)) p)
          \<in> set (fst (save_ultra_comprehensive_results e s)))
   \<and> save_ultra_comprehensive_results e (s\<lparr>failed_urls := F\<rparr>)
       = save_ultra_comprehensive_results e s"
proof -
  let ?st = "get_current_stats (current_time e s) (mapsite_file (storage s))"
  let ?out = "fst (save_ultra_comprehensive_results e s)"
  have a: "TotalURLs (total_urls ?st) \<in> set ?out"
    by (simp add: save_ultra_comprehensive_results_def Let_def)
  have b: "count_consistent (mapsite_file (storage s)) \<longrightarrow>
        TotalURLs (int (length (store_records e s))) \<in> set ?out"
  proof
    assume "count_consistent (mapsite_file (storage s))"
    then have "total_urls ?st = int (length (store_records e s))"
      by (simp add: count_consistent_def get_current_stats_def store_records_def load_mapsite_def
          empty_mapsite_def Let_def split: option.splits)
    with a show "TotalURLs (int (length (store_records e s))) \<in> set ?out" by simp
  qed
  have cats: "categories ?st = foldl count_incr [] (map category (store_records e s))"
    by (simp add: get_current_stats_def store_records_def Let_def)
  have phs: "phases ?st = foldl count_incr [] (map phase (store_records e s))"
    by (simp add: get_current_stats_def store_records_def Let_def)
  have c: "\<forall>c. 0 < count_list (map category (store_records e s)) c \<longrightarrow>
        CategoryCount c (count_list (map category (store_records e s)) c) \<in> set ?out"
  proof (intro allI impI)
    fix c assume pos: "0 < count_list (map category (store_records e s)) c"
    from counted_listed [OF pos] cats
    have m: "(c, count_list (map category (store_records e s)) c) \<in> set (categories ?st)" by simp
    then have ne: "categories ?st \<noteq> []" by auto
    from m have "CategoryCount c (count_list (map category (store_records e s)) c)
        \<in> (\<lambda>(c, n). CategoryCount c n) ` set (sorted_by_count (categories ?st))"
      unfolding set_sorted_by_count by force
    with ne show "CategoryCount c (count_list (map category (store_records e s)) c) \<in> set ?out"
      by (simp add: save_ultra_comprehensive_results_def Let_def)
  qed
  have d: "\<forall>p. 0 < count_list (map phase (store_records e s)) p \<longrightarrow>
        PhaseCount p (count_list (map phase (store_records e s)) p) \<in> set ?out"
  proof (intro allI impI)
    fix p assume pos: "0 < count_list (map phase (store_records e s)) p"
    from counted_listed [OF pos] phs
    have m: "(p, count_list (map phase (store_records e s)) p) \<in> set (phases ?st)" by simp
    then have ne: "phases ?st \<noteq> []" by auto
    from m have "PhaseCount p (count_list (map phase (store_records e s)) p)
        \<in> (\<lambda>(p, n). PhaseCount p n) ` set (sorted_by_count (phases ?st))"
      unfolding set_sorted_by_count by force
    with ne show "PhaseCount p (count_list (map phase (store_records e s)) p) \<in> set ?out"
      by (simp add: save_ultra_comprehensive_results_def Let_def)
  qed
  have f: "save_ultra_comprehensive_results e (s\<lparr>failed_urls := F\<rparr>)
       = save_ultra_comprehensive_results e s"
    by (simp add: save_ultra_comprehensive_results_def current_time_def)
  from a b c d f show ?thesis by (intro conjI)
qed

lemma three_records:
  "count_consistent (mapsite_file (storage seeded_three))"
  "length (store_records (site three_links) seeded_three) = 3"
  "count_list (map category (store_records (site three_links) seeded_three)) ''general'' = 3"
  "count_list (map phase (store_records (site three_links) seeded_three)) ''phase1_foundation'' = 3"
  by code_simp+

theorem summary_reports_store_counts_witness:
  "count_consistent (mapsite_file (storage seeded_three))
   \<and> TotalURLs 3 \<in> set (fst (save_ultra_comprehensive_results (site three_links) seeded_three))
   \<and> CategoryCount ''general'' 3
       \<in> set (fst (save_ultra_comprehensive_results (site three_links) seeded_three))
   \<and> PhaseCount ''phase1_foundation'' 3
       \<in> set (fst (save_ultra_comprehensive_results (site three_links) seeded_three))"
proof -
  note th = summary_reports_store_counts [of "site three_links" seeded_three "{}"]
  note b = th [THEN conjunct2, THEN conjunct1, rule_format, OF three_records(1)]
  note c = th [THEN conjunct2, THEN conjunct2, THEN conjunct1, rule_format, of "''general''"]
  note d = th [THEN conjunct2, THEN conjunct2, THEN conjunct2, THEN conjunct1, rule_format,
      of "''phase1_foundation''"]
  have b': "TotalURLs 3 \<in> set (fst (save_ultra_comprehensive_results (site three_links) seeded_three))"
    using b unfolding three_records(2) by simp
  have c': "CategoryCount ''general'' 3
       \<in> set (fst (save_ultra_comprehensive_results (site three_links) seeded_three))"
    using c unfolding three_records(3) by simp
  have d': "PhaseCount ''phase1_foundation'' 3
       \<in> set (fst (save_ultra_comprehensive_results (site three_links) seeded_three))"
    using d unfolding three_records(4) by simp
  from three_records(1) b' c' d' show ?thesis by (intro conjI)
qed

text \<open>
  The claim as the spec words it fails: after a crawl whose fetch raised, the set of
  failed URLs has one element where it had none, and the summary is the very same.
\<close>

theorem summary_silent_on_failures:
  "failed_urls seeded_three = {}
   \<and> failed_urls (snd (crawl_single_url down_site seeded_three ''https://example.com/x'' 1
        ''general'' ''phase2_recursive'')) = {''https://example.com/x''}
   \<and> save_ultra_comprehensive_results down_site
        (snd (crawl_single_url down_site seeded_three ''https://example.com/x'' 1
           ''general'' ''phase2_recursive''))
       = save_ultra_comprehensive_results down_site seeded_three"
  by code_simp

end
